theory Spec2Isabelle
  imports Main "HOL-Library.Char_ord" "HOL-Library.List_Lexorder"
begin

section \<open>Data model (src/types.ts)\<close>

text \<open>
  The two enumerations of \<^verbatim>\<open>types.ts\<close>. The constructor order follows the source.
\<close>

datatype MessageType = HEARTBEAT | ELECTION | VICTORY | ALIVE | DATA | SHUTDOWN

datatype TabState = IDLE | ELECTING | CHIEF | FOLLOWER | STOPPED

text \<open>
  A tab id is a JavaScript string; \<^verbatim>\<open>generateTabId\<close> only produces the characters
  \<^verbatim>\<open>0-9a-z-\<close>, so \<^typ>\<open>string\<close> with the lexicographic order on character codes is the
  order JavaScript's \<^verbatim>\<open><\<close> computes on ids. Timestamps and durations are integer
  milliseconds. A \<^verbatim>\<open>DATA\<close> payload is opaque to the library; \<open>Undefined\<close> is what
  reading the \<^verbatim>\<open>payload\<close> field of a message without one gives, and \<open>Uncloneable\<close>
  stands for a value that the structured clone of \<^verbatim>\<open>BroadcastChannel.postMessage\<close>
  refuses (a function, a symbol, a DOM node): for such a value the call throws
  \<^verbatim>\<open>DataCloneError\<close>.
\<close>

datatype payload = Undefined | Payload string | Uncloneable string

definition structuredCloneable :: "payload \<Rightarrow> bool" where
  "structuredCloneable data = (case data of Uncloneable _ \<Rightarrow> False | _ \<Rightarrow> True)"

record ChannelMessage =
  msg_type :: MessageType
  senderId :: string
  timestamp :: int
  payload :: payload

record TabChiefOptions =
  opt_channelName :: "string option"
  opt_heartbeatInterval :: "int option"
  opt_electionTimeout :: "int option"

subsection \<open>User closures\<close>

text \<open>
  A closure handed to the library is identified by a reference (JavaScript compares
  functions by identity). A call of a closure is an entry of the trace, so that "ran
  once" and "ran in this order" are statements about the trace. What the library sees of
  a call is whether it returns or throws and, for a subscribed callback, what the callback
  does to the instance while it runs. Two such calls from inside a callback are modelled,
  because the fan-outs behave differently under them: \<^verbatim>\<open>runExclusive(task)\<close>, and
  \<^verbatim>\<open>offMessage(f)\<close> for the function \<open>f\<close> with the given reference. A callback makes
  its calls and then returns or throws. Setups and cleanups are taken not to call back
  into the instance.
\<close>

datatype 'a outcome = Returned 'a | Thrown string

datatype CleanupFunction =
  CleanupFunction (cleanup_ref: nat) (cleanup_body: "unit outcome")

text \<open>
  \<^verbatim>\<open>ExclusiveTask = () => CleanupFunction | void\<close>: the body returns a cleanup
  (\<open>Some\<close>), returns nothing (\<open>None\<close>), or throws.
\<close>

datatype ExclusiveTask =
  ExclusiveTask (task_ref: nat) (task_body: "CleanupFunction option outcome")

datatype reentry = Reenter_runExclusive ExclusiveTask | Reenter_offMessage nat

datatype MessageCallback =
  MessageCallback (mcb_ref: nat) (mcb_calls: "reentry list")
    (mcb_body: "payload \<Rightarrow> unit outcome")

datatype StateChangeCallback =
  StateChangeCallback (scb_ref: nat) (scb_calls: "reentry list")
    (scb_body: "TabState \<Rightarrow> TabState \<Rightarrow> unit outcome")

datatype LeadershipCallback =
  LeadershipCallback (lcb_ref: nat) (lcb_calls: "reentry list") (lcb_body: "unit outcome")

subsection \<open>Timers and the outside world\<close>

text \<open>
  The election timer field holds a handle or \<^verbatim>\<open>null\<close>. A handle is either still pending,
  with the callback and the delay given to \<^verbatim>\<open>setTimeout\<close>, or has fired: the liveness
  callback does not reset the field, so a fired handle can remain stored.
\<close>

datatype timer_callback = CallDeclareVictory | ChiefSeemsDead

datatype timer = Pending timer_callback int | Fired

text \<open>
  Everything the instance does to its environment is appended to a trace.
\<close>

datatype event =
    ChannelOpened string
  | ChannelPostMessage ChannelMessage
  | ChannelClosed
  | AddedBeforeUnloadListener
  | RemovedBeforeUnloadListener
  | RanTask nat
  | RanCleanup nat
  | CalledMessageCallback nat payload
  | CalledStateChangeCallback nat TabState TabState
  | CalledBecomeChiefCallback nat
  | CalledBecomeFollowerCallback nat
  | ConsoleError string string

section \<open>The class \<^verbatim>\<open>TabChief\<close> (src/core.ts)\<close>

text \<open>
  The fields of the class, in the order of the source, followed by the two parts of the
  environment the methods read and write: the wall clock that \<^verbatim>\<open>Date.now()\<close> reads, and
  the trace. \<open>heartbeatTimer\<close> and \<open>electionDebounceTimer\<close> hold the delay of the pending
  timer (the debounce callback resets its field, and an interval never expires, so for
  these two "handle stored" and "timer pending" coincide).
\<close>

record TabChief =
  tabId :: string
  channelName :: string
  heartbeatInterval :: int
  electionTimeout :: int
  creationTimestamp :: int
  channel :: "string option"
  state :: TabState
  currentChiefId :: "string option"
  heartbeatTimer :: "int option"
  electionTimer :: "timer option"
  electionDebounceTimer :: "int option"
  exclusiveTasks :: "ExclusiveTask list"
  activeCleanups :: "CleanupFunction list"
  messageCallbacks :: "MessageCallback list"
  stateChangeCallbacks :: "StateChangeCallback list"
  becomeChiefCallbacks :: "LeadershipCallback list"
  becomeFollowerCallbacks :: "LeadershipCallback list"
  boundBeforeUnload :: bool
  clock :: int
  trace :: "event list"

definition DEFAULT_CHANNEL_NAME :: string where
  "DEFAULT_CHANNEL_NAME = ''tab-chief-default''"

definition DEFAULT_HEARTBEAT_INTERVAL :: int where
  "DEFAULT_HEARTBEAT_INTERVAL = 1000"

definition DEFAULT_ELECTION_TIMEOUT :: int where
  "DEFAULT_ELECTION_TIMEOUT = 3000"

definition ELECTION_DEBOUNCE_TIME :: int where
  "ELECTION_DEBOUNCE_TIME = 100"

text \<open>
  The constructor. \<^verbatim>\<open>generateTabId()\<close> is random, so the id is a parameter; \<open>now\<close> is the
  clock reading at construction.
\<close>

definition TabChief_new :: "string \<Rightarrow> int \<Rightarrow> TabChiefOptions option \<Rightarrow> TabChief" where
  "TabChief_new newId now options =
     \<lparr> tabId = newId,
       channelName = (case Option.bind options opt_channelName of
                        Some n \<Rightarrow> n | None \<Rightarrow> DEFAULT_CHANNEL_NAME),
       heartbeatInterval = (case Option.bind options opt_heartbeatInterval of
                        Some n \<Rightarrow> n | None \<Rightarrow> DEFAULT_HEARTBEAT_INTERVAL),
       electionTimeout = (case Option.bind options opt_electionTimeout of
                        Some n \<Rightarrow> n | None \<Rightarrow> DEFAULT_ELECTION_TIMEOUT),
       creationTimestamp = now,
       channel = None,
       state = IDLE,
       currentChiefId = None,
       heartbeatTimer = None,
       electionTimer = None,
       electionDebounceTimer = None,
       exclusiveTasks = [],
       activeCleanups = [],
       messageCallbacks = [],
       stateChangeCallbacks = [],
       becomeChiefCallbacks = [],
       becomeFollowerCallbacks = [],
       boundBeforeUnload = False,
       clock = now,
       trace = [] \<rparr>"

definition isChief :: "TabChief \<Rightarrow> bool" where
  "isChief t = (state t = CHIEF)"

subsection \<open>Priority and tie-break\<close>

definition shouldYieldTo :: "TabChief \<Rightarrow> string \<Rightarrow> int \<Rightarrow> bool" where
  "shouldYieldTo t otherId otherTimestamp =
     (if otherTimestamp \<noteq> creationTimestamp t
      then otherTimestamp < creationTimestamp t
      else otherId < tabId t)"


subsection \<open>Transport\<close>

definition emit :: "event \<Rightarrow> TabChief \<Rightarrow> TabChief" where
  "emit e t = t\<lparr>trace := trace t @ [e]\<rparr>"

text \<open>An object literal \<^verbatim>\<open>{ type, senderId, timestamp }\<close>.\<close>

definition BaseMessage :: "MessageType \<Rightarrow> string \<Rightarrow> int \<Rightarrow> ChannelMessage" where
  "BaseMessage ty sender ts =
     \<lparr> msg_type = ty, senderId = sender, timestamp = ts, payload = Undefined \<rparr>"

definition broadcast :: "ChannelMessage \<Rightarrow> TabChief \<Rightarrow> TabChief" where
  "broadcast message t =
     (if channel t \<noteq> None then emit (ChannelPostMessage message) t else t)"

subsection \<open>Timers\<close>

definition stopHeartbeat :: "TabChief \<Rightarrow> TabChief" where
  "stopHeartbeat t =
     (if heartbeatTimer t \<noteq> None then t\<lparr>heartbeatTimer := None\<rparr> else t)"

definition sendHeartbeat :: "TabChief \<Rightarrow> TabChief" where
  "sendHeartbeat t = broadcast (BaseMessage HEARTBEAT (tabId t) (clock t)) t"

definition startHeartbeat :: "TabChief \<Rightarrow> TabChief" where
  "startHeartbeat t =
     (let t1 = stopHeartbeat t;
          t2 = sendHeartbeat t1
      in t2\<lparr>heartbeatTimer := Some (heartbeatInterval t2)\<rparr>)"

definition clearElectionTimer :: "TabChief \<Rightarrow> TabChief" where
  "clearElectionTimer t =
     (if electionTimer t \<noteq> None then t\<lparr>electionTimer := None\<rparr> else t)"

definition clearTimers :: "TabChief \<Rightarrow> TabChief" where
  "clearTimers t =
     (let t1 = stopHeartbeat t;
          t2 = clearElectionTimer t1
      in if electionDebounceTimer t2 \<noteq> None
         then t2\<lparr>electionDebounceTimer := None\<rparr> else t2)"

subsection \<open>Effect registry\<close>

text \<open>
  \<^verbatim>\<open>runTask\<close>: the call is inside \<^verbatim>\<open>try\<close>; a returned function is pushed on the active
  cleanups, a thrown error is logged.
\<close>

definition runTask :: "ExclusiveTask \<Rightarrow> TabChief \<Rightarrow> TabChief" where
  "runTask task t =
     (let t1 = emit (RanTask (task_ref task)) t
      in case task_body task of
           Returned cleanup \<Rightarrow>
             (case cleanup of
                Some f \<Rightarrow> t1\<lparr>activeCleanups := activeCleanups t1 @ [f]\<rparr>
              | None \<Rightarrow> t1)
         | Thrown error \<Rightarrow>
             emit (ConsoleError ''[TabChief] Error running exclusive task:'' error) t1)"

definition runAllTasks :: "TabChief \<Rightarrow> TabChief" where
  "runAllTasks t = fold runTask (exclusiveTasks t) t"

text \<open>The body of the loop of \<^verbatim>\<open>runCleanups\<close>: one guarded call.\<close>

definition runCleanup :: "CleanupFunction \<Rightarrow> TabChief \<Rightarrow> TabChief" where
  "runCleanup cleanup t =
     (let t1 = emit (RanCleanup (cleanup_ref cleanup)) t
      in case cleanup_body cleanup of
           Returned _ \<Rightarrow> t1
         | Thrown error \<Rightarrow> emit (ConsoleError ''[TabChief] Error running cleanup:'' error) t1)"

definition runCleanups :: "TabChief \<Rightarrow> TabChief" where
  "runCleanups t = (fold runCleanup (activeCleanups t) t)\<lparr>activeCleanups := []\<rparr>"

definition runExclusive :: "ExclusiveTask \<Rightarrow> TabChief \<Rightarrow> TabChief" where
  "runExclusive task t =
     (let t1 = t\<lparr>exclusiveTasks := exclusiveTasks t @ [task]\<rparr>
      in if state t1 = CHIEF then runTask task t1 else t1)"

subsection \<open>Calls from inside a callback\<close>

text \<open>
  \<^verbatim>\<open>indexOf\<close> followed by \<^verbatim>\<open>splice(index, 1)\<close>: the first entry that is the given function
  (the same reference) is removed from the array, if there is one.
\<close>

fun splice_first :: "('a \<Rightarrow> nat) \<Rightarrow> nat \<Rightarrow> 'a list \<Rightarrow> 'a list" where
  "splice_first ref r [] = []"
| "splice_first ref r (x # xs) = (if ref x = r then xs else x # splice_first ref r xs)"

definition offMessage :: "MessageCallback \<Rightarrow> TabChief \<Rightarrow> TabChief" where
  "offMessage callback t =
     t\<lparr>messageCallbacks := splice_first mcb_ref (mcb_ref callback) (messageCallbacks t)\<rparr>"

text \<open>
  One call made by a running callback. \<^verbatim>\<open>offMessage\<close> only looks at the identity of its
  argument, so the reference stands for the function.
\<close>

fun reenter :: "reentry \<Rightarrow> TabChief \<Rightarrow> TabChief" where
  "reenter (Reenter_runExclusive task) t = runExclusive task t"
| "reenter (Reenter_offMessage r) t =
     t\<lparr>messageCallbacks := splice_first mcb_ref r (messageCallbacks t)\<rparr>"

subsection \<open>Observer registry\<close>

text \<open>
  One guarded call of a subscriber: the call is recorded, the callback makes its calls
  into the instance, and a thrown error is logged.
\<close>

definition notifyMessageCallback :: "payload \<Rightarrow> MessageCallback \<Rightarrow> TabChief \<Rightarrow> TabChief" where
  "notifyMessageCallback data callback t =
     (let t1 = emit (CalledMessageCallback (mcb_ref callback) data) t;
          t2 = fold reenter (mcb_calls callback) t1
      in case mcb_body callback data of
           Returned _ \<Rightarrow> t2
         | Thrown error \<Rightarrow> emit (ConsoleError ''[TabChief] Error in message callback:'' error) t2)"

text \<open>
  \<^verbatim>\<open>for (const callback of this.messageCallbacks)\<close> walks the array by index and reads
  it afresh at every step, and \<^verbatim>\<open>offMessage\<close> splices the same array: a callback that
  unsubscribes itself, or an earlier one, moves the next entry under the index already
  visited. The loop ends because no modelled call makes the array longer.
\<close>

function notifyMessageCallbacksFrom :: "nat \<Rightarrow> payload \<Rightarrow> TabChief \<Rightarrow> TabChief" where
  "notifyMessageCallbacksFrom i data t =
     (if i < length (messageCallbacks t)
      then notifyMessageCallbacksFrom (Suc i) data
             (notifyMessageCallback data (messageCallbacks t ! i) t)
      else t)"
  by pat_completeness auto
termination
proof (relation "measure (\<lambda>(i, data, t). length (messageCallbacks t) - i)", goal_cases)
  case 1
  show ?case by simp
next
  case (2 i data t)
  have splice: "length (splice_first ref r xs) \<le> length xs" for ref r and xs :: "'a list"
    by (induction xs) auto
  have calls: "length (messageCallbacks (fold reenter cs u)) \<le> length (messageCallbacks u)"
    for cs u
  proof (induction cs arbitrary: u)
    case Nil
    show ?case by simp
  next
    case (Cons c cs)
    have "length (messageCallbacks (reenter c u)) \<le> length (messageCallbacks u)"
      using splice [of mcb_ref _ "messageCallbacks u"]
      by (cases c) (simp_all add: runExclusive_def runTask_def emit_def Let_def
            split: outcome.splits option.splits)
    with Cons [of "reenter c u"] show ?case by simp
  qed
  have "length (messageCallbacks (notifyMessageCallback data cb t)) \<le> length (messageCallbacks t)"
    for cb
    using calls [of "mcb_calls cb" "emit (CalledMessageCallback (mcb_ref cb) data) t"]
    by (simp add: notifyMessageCallback_def emit_def Let_def split: outcome.splits)
  from this [of "messageCallbacks t ! i"] 2 show ?case by simp
qed

definition notifyMessageCallbacks :: "payload \<Rightarrow> TabChief \<Rightarrow> TabChief" where
  "notifyMessageCallbacks data t = notifyMessageCallbacksFrom 0 data t"

text \<open>
  The other three lists are not touched by any modelled call, so walking them by index
  is walking the list as it was when the loop began.
\<close>

definition notifyStateChangeCallback ::
  "TabState \<Rightarrow> TabState \<Rightarrow> StateChangeCallback \<Rightarrow> TabChief \<Rightarrow> TabChief" where
  "notifyStateChangeCallback newState oldState callback t =
     (let t1 = emit (CalledStateChangeCallback (scb_ref callback) newState oldState) t;
          t2 = fold reenter (scb_calls callback) t1
      in case scb_body callback newState oldState of
           Returned _ \<Rightarrow> t2
         | Thrown error \<Rightarrow>
             emit (ConsoleError ''[TabChief] Error in state change callback:'' error) t2)"

definition notifyStateChangeCallbacks :: "TabState \<Rightarrow> TabState \<Rightarrow> TabChief \<Rightarrow> TabChief" where
  "notifyStateChangeCallbacks newState oldState t =
     fold (notifyStateChangeCallback newState oldState) (stateChangeCallbacks t) t"

definition notifyBecomeChiefCallback :: "LeadershipCallback \<Rightarrow> TabChief \<Rightarrow> TabChief" where
  "notifyBecomeChiefCallback callback t =
     (let t1 = emit (CalledBecomeChiefCallback (lcb_ref callback)) t;
          t2 = fold reenter (lcb_calls callback) t1
      in case lcb_body callback of
           Returned _ \<Rightarrow> t2
         | Thrown error \<Rightarrow>
             emit (ConsoleError ''[TabChief] Error in become Chief callback:'' error) t2)"

definition notifyBecomeChiefCallbacks :: "TabChief \<Rightarrow> TabChief" where
  "notifyBecomeChiefCallbacks t = fold notifyBecomeChiefCallback (becomeChiefCallbacks t) t"

definition notifyBecomeFollowerCallback :: "LeadershipCallback \<Rightarrow> TabChief \<Rightarrow> TabChief" where
  "notifyBecomeFollowerCallback callback t =
     (let t1 = emit (CalledBecomeFollowerCallback (lcb_ref callback)) t;
          t2 = fold reenter (lcb_calls callback) t1
      in case lcb_body callback of
           Returned _ \<Rightarrow> t2
         | Thrown error \<Rightarrow>
             emit (ConsoleError ''[TabChief] Error in become Follower callback:'' error) t2)"

definition notifyBecomeFollowerCallbacks :: "TabChief \<Rightarrow> TabChief" where
  "notifyBecomeFollowerCallbacks t =
     fold notifyBecomeFollowerCallback (becomeFollowerCallbacks t) t"

definition setState :: "TabState \<Rightarrow> TabChief \<Rightarrow> TabChief" where
  "setState newState t =
     (let oldState = state t
      in if oldState = newState then t
         else
           (let t1 = t\<lparr>state := newState\<rparr>;
                t2 = notifyStateChangeCallbacks newState oldState t1
            in if newState = CHIEF \<and> oldState \<noteq> CHIEF then notifyBecomeChiefCallbacks t2
               else if newState = FOLLOWER \<and> oldState = CHIEF
                    then notifyBecomeFollowerCallbacks t2
               else t2))"

subsection \<open>Election state machine\<close>

definition startElection :: "TabChief \<Rightarrow> TabChief" where
  "startElection t =
     (if electionDebounceTimer t \<noteq> None then t
      else
        (let t1 = t\<lparr>electionDebounceTimer := Some ELECTION_DEBOUNCE_TIME\<rparr>;
             t2 = setState ELECTING t1;
             t3 = clearElectionTimer t2;
             t4 = broadcast (BaseMessage ELECTION (tabId t3) (creationTimestamp t3)) t3
         in t4\<lparr>electionTimer := Some (Pending CallDeclareVictory (electionTimeout t4))\<rparr>))"

definition declareVictory :: "TabChief \<Rightarrow> TabChief" where
  "declareVictory t =
     (let t1 = clearElectionTimer t;
          t2 = setState CHIEF t1;
          t3 = t2\<lparr>currentChiefId := Some (tabId t2)\<rparr>;
          t4 = broadcast (BaseMessage VICTORY (tabId t3) (clock t3)) t3;
          t5 = startHeartbeat t4
      in runAllTasks t5)"

definition resetElectionTimeout :: "TabChief \<Rightarrow> TabChief" where
  "resetElectionTimeout t =
     (let t1 = clearElectionTimer t
      in t1\<lparr>electionTimer := Some (Pending ChiefSeemsDead (electionTimeout t1))\<rparr>)"

definition becomeFollower :: "string \<Rightarrow> TabChief \<Rightarrow> TabChief" where
  "becomeFollower chiefId t =
     (let wasChief = (state t = CHIEF);
          t1 = setState FOLLOWER t;
          t2 = t1\<lparr>currentChiefId := Some chiefId\<rparr>;
          t3 = stopHeartbeat t2;
          t4 = (if wasChief then runCleanups t3 else t3)
      in resetElectionTimeout t4)"

definition handleHeartbeat :: "string \<Rightarrow> TabChief \<Rightarrow> TabChief" where
  "handleHeartbeat sender t =
     (if state t = CHIEF \<and> sender \<noteq> tabId t
      then (if shouldYieldTo t sender (clock t) then becomeFollower sender t else t)
      else if state t = ELECTING \<or> state t = FOLLOWER
           then becomeFollower sender (t\<lparr>currentChiefId := Some sender\<rparr>)
      else t)"

definition handleElectionRequest :: "string \<Rightarrow> int \<Rightarrow> TabChief \<Rightarrow> TabChief" where
  "handleElectionRequest sender senderTimestamp t =
     (if \<not> shouldYieldTo t sender senderTimestamp
      then
        (let t1 = broadcast (BaseMessage ALIVE (tabId t) (creationTimestamp t)) t
         in if state t1 \<noteq> CHIEF then startElection t1 else t1)
      else t)"

definition handleAliveResponse :: "string \<Rightarrow> int \<Rightarrow> TabChief \<Rightarrow> TabChief" where
  "handleAliveResponse sender senderTimestamp t =
     (if state t = ELECTING
      then (if shouldYieldTo t sender senderTimestamp
            then resetElectionTimeout (setState FOLLOWER (clearElectionTimer t))
            else t)
      else t)"

definition handleVictory :: "string \<Rightarrow> TabChief \<Rightarrow> TabChief" where
  "handleVictory sender t =
     (if sender = tabId t then t
      else if state t = CHIEF
           then (if shouldYieldTo t sender (clock t) then becomeFollower sender t
                 else broadcast (BaseMessage VICTORY (tabId t) (clock t)) t)
      else becomeFollower sender t)"

definition handleShutdown :: "string \<Rightarrow> TabChief \<Rightarrow> TabChief" where
  "handleShutdown sender t =
     (if Some sender = currentChiefId t
      then startElection (t\<lparr>currentChiefId := None\<rparr>)
      else t)"

definition handleMessage :: "ChannelMessage \<Rightarrow> TabChief \<Rightarrow> TabChief" where
  "handleMessage message t =
     (if senderId message = tabId t then t
      else case msg_type message of
             HEARTBEAT \<Rightarrow> handleHeartbeat (senderId message) t
           | ELECTION \<Rightarrow> handleElectionRequest (senderId message) (timestamp message) t
           | ALIVE \<Rightarrow> handleAliveResponse (senderId message) (timestamp message) t
           | VICTORY \<Rightarrow> handleVictory (senderId message) t
           | DATA \<Rightarrow> notifyMessageCallbacks (payload message) t
           | SHUTDOWN \<Rightarrow> handleShutdown (senderId message) t)"

definition handleBeforeUnload :: "TabChief \<Rightarrow> TabChief" where
  "handleBeforeUnload t =
     (let t1 = (if state t = CHIEF
                then broadcast (BaseMessage SHUTDOWN (tabId t) (clock t)) t else t)
      in runCleanups t1)"

subsection \<open>Public methods\<close>

definition start :: "TabChief \<Rightarrow> TabChief" where
  "start t =
     (if state t \<noteq> IDLE \<and> state t \<noteq> STOPPED then t
      else
        (let t1 = emit (ChannelOpened (channelName t)) (t\<lparr>channel := Some (channelName t)\<rparr>);
             t2 = emit AddedBeforeUnloadListener (t1\<lparr>boundBeforeUnload := True\<rparr>)
         in startElection t2))"

definition stop :: "TabChief \<Rightarrow> TabChief" where
  "stop t =
     (if state t = STOPPED \<or> state t = IDLE then t
      else
        (let t1 = (if state t = CHIEF
                   then broadcast (BaseMessage SHUTDOWN (tabId t) (clock t)) t else t);
             t2 = runCleanups t1;
             t3 = clearTimers t2;
             t4 = (if boundBeforeUnload t3
                   then emit RemovedBeforeUnloadListener (t3\<lparr>boundBeforeUnload := False\<rparr>)
                   else t3);
             t5 = (if channel t4 \<noteq> None
                   then emit ChannelClosed (t4\<lparr>channel := None\<rparr>) else t4);
             t6 = setState STOPPED t5
         in t6\<lparr>currentChiefId := None\<rparr>))"

text \<open>
  \<^verbatim>\<open>postMessage\<close>: the send is not guarded, so its \<^verbatim>\<open>DataCloneError\<close> reaches the caller
  and the statements after it are not run. The result is the instance, or the error
  thrown to the caller.
\<close>

definition postMessage :: "payload \<Rightarrow> TabChief \<Rightarrow> TabChief outcome" where
  "postMessage data t =
     (if channel t = None \<or> state t = STOPPED \<or> state t = IDLE then Returned t
      else
        (let message = \<lparr> msg_type = DATA, senderId = tabId t, timestamp = clock t,
                         payload = data \<rparr>
         in if \<not> structuredCloneable data then Thrown ''DataCloneError''
            else
              (let t1 = emit (ChannelPostMessage message) t
               in Returned (notifyMessageCallbacks data t1))))"

definition onMessage :: "MessageCallback \<Rightarrow> TabChief \<Rightarrow> TabChief" where
  "onMessage callback t = t\<lparr>messageCallbacks := messageCallbacks t @ [callback]\<rparr>"

definition onStateChange :: "StateChangeCallback \<Rightarrow> TabChief \<Rightarrow> TabChief" where
  "onStateChange callback t = t\<lparr>stateChangeCallbacks := stateChangeCallbacks t @ [callback]\<rparr>"

definition offStateChange :: "StateChangeCallback \<Rightarrow> TabChief \<Rightarrow> TabChief" where
  "offStateChange callback t =
     t\<lparr>stateChangeCallbacks :=
         splice_first scb_ref (scb_ref callback) (stateChangeCallbacks t)\<rparr>"

definition onBecomeChief :: "LeadershipCallback \<Rightarrow> TabChief \<Rightarrow> TabChief" where
  "onBecomeChief callback t = t\<lparr>becomeChiefCallbacks := becomeChiefCallbacks t @ [callback]\<rparr>"

definition offBecomeChief :: "LeadershipCallback \<Rightarrow> TabChief \<Rightarrow> TabChief" where
  "offBecomeChief callback t =
     t\<lparr>becomeChiefCallbacks :=
         splice_first lcb_ref (lcb_ref callback) (becomeChiefCallbacks t)\<rparr>"

definition onBecomeFollower :: "LeadershipCallback \<Rightarrow> TabChief \<Rightarrow> TabChief" where
  "onBecomeFollower callback t =
     t\<lparr>becomeFollowerCallbacks := becomeFollowerCallbacks t @ [callback]\<rparr>"

definition offBecomeFollower :: "LeadershipCallback \<Rightarrow> TabChief \<Rightarrow> TabChief" where
  "offBecomeFollower callback t =
     t\<lparr>becomeFollowerCallbacks :=
         splice_first lcb_ref (lcb_ref callback) (becomeFollowerCallbacks t)\<rparr>"

section \<open>The instance in its environment\<close>

text \<open>
  What can happen to an instance: its owner calls a public method, the channel delivers a
  message (only while the channel is open: \<^verbatim>\<open>onmessage\<close> is set in \<^verbatim>\<open>start\<close> and the
  channel is closed in \<^verbatim>\<open>stop\<close>), one of the three timers expires, or time passes. Each
  is run to completion, as the single-threaded host does. The page can also fire
  \<^verbatim>\<open>beforeunload\<close>, which runs the listener that \<^verbatim>\<open>start\<close> installed and \<^verbatim>\<open>stop\<close>
  removes; the page may well go on afterwards (the unload can be cancelled). An error
  that a public method throws goes to the caller and leaves the instance as it was.
\<close>

datatype input =
    Call_start
  | Call_stop
  | Call_runExclusive ExclusiveTask
  | Call_postMessage payload
  | Call_onMessage MessageCallback
  | Call_offMessage MessageCallback
  | Call_onStateChange StateChangeCallback
  | Call_offStateChange StateChangeCallback
  | Call_onBecomeChief LeadershipCallback
  | Call_offBecomeChief LeadershipCallback
  | Call_onBecomeFollower LeadershipCallback
  | Call_offBecomeFollower LeadershipCallback
  | ChannelDelivers ChannelMessage
  | ElectionTimerFires
  | ElectionDebounceTimerFires
  | HeartbeatTimerFires
  | BeforeUnload
  | ClockReads int

text \<open>
  The callbacks given to \<^verbatim>\<open>setTimeout\<close> and \<^verbatim>\<open>setInterval\<close>. A timer fires only while
  pending.
\<close>

definition electionTimerFires :: "TabChief \<Rightarrow> TabChief" where
  "electionTimerFires t =
     (case electionTimer t of
        Some (Pending callback delay) \<Rightarrow>
          (let t1 = t\<lparr>electionTimer := Some Fired\<rparr>
           in case callback of
                CallDeclareVictory \<Rightarrow> declareVictory t1
              | ChiefSeemsDead \<Rightarrow> startElection (t1\<lparr>currentChiefId := None\<rparr>))
      | _ \<Rightarrow> t)"

definition electionDebounceTimerFires :: "TabChief \<Rightarrow> TabChief" where
  "electionDebounceTimerFires t =
     (if electionDebounceTimer t \<noteq> None then t\<lparr>electionDebounceTimer := None\<rparr> else t)"

definition heartbeatTimerFires :: "TabChief \<Rightarrow> TabChief" where
  "heartbeatTimerFires t = (if heartbeatTimer t \<noteq> None then sendHeartbeat t else t)"

fun step :: "input \<Rightarrow> TabChief \<Rightarrow> TabChief" where
  "step Call_start t = start t"
| "step Call_stop t = stop t"
| "step (Call_runExclusive task) t = runExclusive task t"
| "step (Call_postMessage data) t =
     (case postMessage data t of Returned t' \<Rightarrow> t' | Thrown error \<Rightarrow> t)"
| "step (Call_onMessage callback) t = onMessage callback t"
| "step (Call_offMessage callback) t = offMessage callback t"
| "step (Call_onStateChange callback) t = onStateChange callback t"
| "step (Call_offStateChange callback) t = offStateChange callback t"
| "step (Call_onBecomeChief callback) t = onBecomeChief callback t"
| "step (Call_offBecomeChief callback) t = offBecomeChief callback t"
| "step (Call_onBecomeFollower callback) t = onBecomeFollower callback t"
| "step (Call_offBecomeFollower callback) t = offBecomeFollower callback t"
| "step (ChannelDelivers message) t =
     (if channel t \<noteq> None then handleMessage message t else t)"
| "step ElectionTimerFires t = electionTimerFires t"
| "step ElectionDebounceTimerFires t = electionDebounceTimerFires t"
| "step HeartbeatTimerFires t = heartbeatTimerFires t"
| "step BeforeUnload t = (if boundBeforeUnload t then handleBeforeUnload t else t)"
| "step (ClockReads now) t = t\<lparr>clock := now\<rparr>"

text \<open>A run applies inputs from left to right.\<close>

definition run :: "input list \<Rightarrow> TabChief \<Rightarrow> TabChief" where
  "run inputs t = fold step inputs t"

inductive reachable :: "TabChief \<Rightarrow> bool" where
  reachable_new: "reachable (TabChief_new newId now options)"
| reachable_step: "reachable t \<Longrightarrow> reachable (step i t)"

subsection \<open>Reading the trace\<close>

text \<open>The calls of each kind of closure recorded in a trace, in order.\<close>

definition ranTasks :: "event list \<Rightarrow> nat list" where
  "ranTasks evs = concat (map (\<lambda>e. case e of RanTask r \<Rightarrow> [r] | _ \<Rightarrow> []) evs)"

definition ranCleanups :: "event list \<Rightarrow> nat list" where
  "ranCleanups evs = concat (map (\<lambda>e. case e of RanCleanup r \<Rightarrow> [r] | _ \<Rightarrow> []) evs)"

definition messageCalls :: "event list \<Rightarrow> (nat \<times> payload) list" where
  "messageCalls evs =
     concat (map (\<lambda>e. case e of CalledMessageCallback r d \<Rightarrow> [(r, d)] | _ \<Rightarrow> []) evs)"

definition stateChangeCalls :: "event list \<Rightarrow> (nat \<times> TabState \<times> TabState) list" where
  "stateChangeCalls evs =
     concat (map (\<lambda>e. case e of CalledStateChangeCallback r new old \<Rightarrow> [(r, new, old)]
                          | _ \<Rightarrow> []) evs)"

definition becomeChiefCalls :: "event list \<Rightarrow> nat list" where
  "becomeChiefCalls evs =
     concat (map (\<lambda>e. case e of CalledBecomeChiefCallback r \<Rightarrow> [r] | _ \<Rightarrow> []) evs)"

definition becomeFollowerCalls :: "event list \<Rightarrow> nat list" where
  "becomeFollowerCalls evs =
     concat (map (\<lambda>e. case e of CalledBecomeFollowerCallback r \<Rightarrow> [r] | _ \<Rightarrow> []) evs)"

definition sentMessages :: "event list \<Rightarrow> ChannelMessage list" where
  "sentMessages evs =
     concat (map (\<lambda>e. case e of ChannelPostMessage m \<Rightarrow> [m] | _ \<Rightarrow> []) evs)"

text \<open>The cleanups that the setups of a list of tasks return, in order.\<close>

definition returnedCleanups :: "ExclusiveTask list \<Rightarrow> CleanupFunction list" where
  "returnedCleanups tasks =
     concat (map (\<lambda>task. case task_body task of Returned (Some f) \<Rightarrow> [f] | _ \<Rightarrow> []) tasks)"

subsection \<open>What the calls of a callback amount to\<close>

text \<open>
  The tasks that a list of calls registers, in order, and the message subscribers left
  after its unsubscriptions. \<open>applied\<close> is an instance after a callback has been called:
  the tasks are registered, their setups have run if the instance is the chief, the
  unsubscriptions are done and the events are on the trace.
\<close>

definition registered :: "reentry list \<Rightarrow> ExclusiveTask list" where
  "registered calls =
     concat (map (\<lambda>c. case c of Reenter_runExclusive task \<Rightarrow> [task] | _ \<Rightarrow> []) calls)"

definition unsubscribed :: "reentry list \<Rightarrow> MessageCallback list \<Rightarrow> MessageCallback list" where
  "unsubscribed calls cbs =
     fold (\<lambda>c xs. case c of Reenter_offMessage r \<Rightarrow> splice_first mcb_ref r xs | _ \<Rightarrow> xs)
       calls cbs"

text \<open>The references that a list of calls unsubscribes.\<close>

definition offMessageCalls :: "reentry list \<Rightarrow> nat list" where
  "offMessageCalls calls =
     concat (map (\<lambda>c. case c of Reenter_offMessage r \<Rightarrow> [r] | _ \<Rightarrow> []) calls)"

definition applied :: "reentry list \<Rightarrow> event list \<Rightarrow> TabChief \<Rightarrow> TabChief" where
  "applied calls evs t =
     t\<lparr>exclusiveTasks := exclusiveTasks t @ registered calls,
       activeCleanups := activeCleanups t @
         (if state t = CHIEF then returnedCleanups (registered calls) else []),
       messageCallbacks := unsubscribed calls (messageCallbacks t),
       trace := trace t @ evs\<rparr>"

text \<open>
  The entries that the index loop over the live array of message subscribers reaches,
  from index \<open>i\<close> on: the entry at the index, then the entries reached in what its
  unsubscriptions leave.
\<close>

function visited :: "nat \<Rightarrow> MessageCallback list \<Rightarrow> MessageCallback list" where
  "visited i cbs =
     (if i < length cbs
      then cbs ! i # visited (Suc i) (unsubscribed (mcb_calls (cbs ! i)) cbs)
      else [])"
  by pat_completeness auto
termination
proof (relation "measure (\<lambda>(i, cbs). length cbs - i)", goal_cases)
  case 1
  show ?case by simp
next
  case (2 i cbs)
  have splice: "length (splice_first ref r xs) \<le> length xs" for ref r and xs :: "'a list"
    by (induction xs) auto
  have "length (unsubscribed cs xs) \<le> length xs" for cs xs
  proof (induction cs arbitrary: xs)
    case Nil
    show ?case by (simp add: unsubscribed_def)
  next
    case (Cons c cs)
    have "length (case c of Reenter_offMessage r \<Rightarrow> splice_first mcb_ref r xs | _ \<Rightarrow> xs)
        \<le> length xs"
      using splice [of mcb_ref _ xs] by (cases c) simp_all
    with Cons [of "case c of Reenter_offMessage r \<Rightarrow> splice_first mcb_ref r xs | _ \<Rightarrow> xs"]
    show ?case by (simp add: unsubscribed_def)
  qed
  from this [of "mcb_calls (cbs ! i)" cbs] 2 show ?case by simp
qed

subsection \<open>What an operation appends to the trace\<close>

text \<open>
  A guarded call (\<^verbatim>\<open>try { f() } catch (error) { console.error(label, error) }\<close>) appends
  the call, and the logged error when the body throws. The call of a subscriber appends
  in between the setups that its \<^verbatim>\<open>runExclusive\<close> calls run, which they do when the
  instance is the chief. The functions below name the events that each loop of the source
  appends.
\<close>

definition guardedCall :: "event \<Rightarrow> 'a outcome \<Rightarrow> string \<Rightarrow> event list" where
  "guardedCall e r label =
     (case r of Returned _ \<Rightarrow> [e] | Thrown err \<Rightarrow> [e, ConsoleError label err])"

definition cleanupEvents :: "CleanupFunction list \<Rightarrow> event list" where
  "cleanupEvents cs =
     concat (map (\<lambda>c. guardedCall (RanCleanup (cleanup_ref c))
                    (cleanup_body c) ''[TabChief] Error running cleanup:'')
               cs)"

definition taskEvents :: "ExclusiveTask list \<Rightarrow> event list" where
  "taskEvents tasks =
     concat (map (\<lambda>task. guardedCall (RanTask (task_ref task))
                    (task_body task) ''[TabChief] Error running exclusive task:'')
               tasks)"

definition observerCall ::
  "bool \<Rightarrow> event \<Rightarrow> reentry list \<Rightarrow> 'a outcome \<Rightarrow> string \<Rightarrow> event list" where
  "observerCall chief e calls r label =
     e # (if chief then taskEvents (registered calls) else []) @
     (case r of Returned _ \<Rightarrow> [] | Thrown err \<Rightarrow> [ConsoleError label err])"

definition messageCallbackEvents :: "bool \<Rightarrow> payload \<Rightarrow> MessageCallback list \<Rightarrow> event list" where
  "messageCallbackEvents chief data cbs =
     concat (map (\<lambda>c. observerCall chief (CalledMessageCallback (mcb_ref c) data)
                    (mcb_calls c) (mcb_body c data) ''[TabChief] Error in message callback:'')
               cbs)"

definition stateChangeEvents ::
  "bool \<Rightarrow> TabState \<Rightarrow> TabState \<Rightarrow> StateChangeCallback list \<Rightarrow> event list" where
  "stateChangeEvents chief newState oldState cbs =
     concat (map (\<lambda>c. observerCall chief (CalledStateChangeCallback (scb_ref c) newState oldState)
                    (scb_calls c) (scb_body c newState oldState)
                    ''[TabChief] Error in state change callback:'')
               cbs)"

definition becomeChiefEvents :: "bool \<Rightarrow> LeadershipCallback list \<Rightarrow> event list" where
  "becomeChiefEvents chief cbs =
     concat (map (\<lambda>c. observerCall chief (CalledBecomeChiefCallback (lcb_ref c))
                    (lcb_calls c) (lcb_body c) ''[TabChief] Error in become Chief callback:'')
               cbs)"

definition becomeFollowerEvents :: "bool \<Rightarrow> LeadershipCallback list \<Rightarrow> event list" where
  "becomeFollowerEvents chief cbs =
     concat (map (\<lambda>c. observerCall chief (CalledBecomeFollowerCallback (lcb_ref c))
                    (lcb_calls c) (lcb_body c) ''[TabChief] Error in become Follower callback:'')
               cbs)"

text \<open>The calls and the events of the subscribers that \<^verbatim>\<open>setState\<close> notifies.\<close>

definition setStateCalls :: "TabState \<Rightarrow> TabChief \<Rightarrow> reentry list" where
  "setStateCalls newState t =
     (if state t = newState then []
      else concat (map scb_calls (stateChangeCallbacks t)) @
        (if newState = CHIEF \<and> state t \<noteq> CHIEF
         then concat (map lcb_calls (becomeChiefCallbacks t))
         else if newState = FOLLOWER \<and> state t = CHIEF
              then concat (map lcb_calls (becomeFollowerCallbacks t))
         else []))"

definition setStateEvents :: "TabState \<Rightarrow> TabChief \<Rightarrow> event list" where
  "setStateEvents newState t =
     (if state t = newState then []
      else stateChangeEvents (newState = CHIEF) newState (state t) (stateChangeCallbacks t) @
        (if newState = CHIEF \<and> state t \<noteq> CHIEF
         then becomeChiefEvents True (becomeChiefCallbacks t)
         else if newState = FOLLOWER \<and> state t = CHIEF
              then becomeFollowerEvents False (becomeFollowerCallbacks t)
         else []))"

definition sendEvents :: "TabChief \<Rightarrow> ChannelMessage list \<Rightarrow> event list" where
  "sendEvents t ms = (if channel t \<noteq> None then map ChannelPostMessage ms else [])"

text \<open>An instance none of whose subscribers calls back into it.\<close>

definition inert :: "TabChief \<Rightarrow> bool" where
  "inert t \<longleftrightarrow>
     (\<forall>c \<in> set (messageCallbacks t). mcb_calls c = [])
     \<and> (\<forall>c \<in> set (stateChangeCallbacks t). scb_calls c = [])
     \<and> (\<forall>c \<in> set (becomeChiefCallbacks t). lcb_calls c = [])
     \<and> (\<forall>c \<in> set (becomeFollowerCallbacks t). lcb_calls c = [])"

subsection \<open>Invariant of the reachable instances\<close>

text \<open>
  While idle or stopped the channel is closed and no election or debounce timer is stored;
  otherwise the channel is open and the \<^verbatim>\<open>beforeunload\<close> listener is installed. A chief
  tracks itself and stores no election timer. Only a chief has active cleanups.
\<close>

definition inv :: "TabChief \<Rightarrow> bool" where
  "inv t \<longleftrightarrow>
     (state t = IDLE \<or> state t = STOPPED \<longrightarrow>
        channel t = None \<and> electionTimer t = None \<and> electionDebounceTimer t = None)
     \<and> (state t \<noteq> IDLE \<and> state t \<noteq> STOPPED \<longrightarrow> channel t \<noteq> None \<and> boundBeforeUnload t)
     \<and> (state t = CHIEF \<longrightarrow> currentChiefId t = Some (tabId t) \<and> electionTimer t = None)
     \<and> (state t \<noteq> CHIEF \<longrightarrow> activeCleanups t = [])"

subsection \<open>Setups and cleanups along a step\<close>

text \<open>
  The tasks registered between an instance and a later one: those after the tasks that
  were registered before.
\<close>

definition addedTasks :: "TabChief \<Rightarrow> TabChief \<Rightarrow> ExclusiveTask list" where
  "addedTasks t t' = drop (length (exclusiveTasks t)) (exclusiveTasks t')"

text \<open>
  What one step from \<open>t\<close> to \<open>t'\<close> on input \<open>i\<close> does to the exclusive tasks: the
  registry, the setups that ran, the cleanups that ran, and the cleanups that are active
  afterwards.
\<close>

definition lifecycle :: "input \<Rightarrow> TabChief \<Rightarrow> TabChief \<Rightarrow> bool" where
  "lifecycle i t t' \<longleftrightarrow>
     exclusiveTasks t' = exclusiveTasks t @ addedTasks t t'
     \<and> ranTasks (trace t') = ranTasks (trace t) @
       (if state t \<noteq> CHIEF \<and> state t' = CHIEF
        then map task_ref (addedTasks t t') @ map task_ref (exclusiveTasks t')
        else if state t = CHIEF \<and> state t' = CHIEF then map task_ref (addedTasks t t')
        else [])
     \<and> ranCleanups (trace t') = ranCleanups (trace t) @
       (if state t = CHIEF \<and> state t' \<noteq> CHIEF \<or> i = BeforeUnload
        then map cleanup_ref (activeCleanups t) else [])
     \<and> activeCleanups t' =
       (if state t \<noteq> CHIEF \<and> state t' = CHIEF
        then returnedCleanups (addedTasks t t') @ returnedCleanups (exclusiveTasks t')
        else if state t' \<noteq> CHIEF \<or> i = BeforeUnload then []
        else activeCleanups t @ returnedCleanups (addedTasks t t'))"

subsection \<open>Observers along a step\<close>

text \<open>
  What one step from \<open>t\<close> to \<open>t'\<close> calls of the three kinds of transition subscribers,
  in terms of the states before and after.
\<close>

definition observed :: "TabChief \<Rightarrow> TabChief \<Rightarrow> bool" where
  "observed t t' \<longleftrightarrow>
     stateChangeCalls (trace t') = stateChangeCalls (trace t) @
       (if state t' \<noteq> state t
        then map (\<lambda>c. (scb_ref c, state t', state t)) (stateChangeCallbacks t) else [])
     \<and> becomeChiefCalls (trace t') = becomeChiefCalls (trace t) @
       (if state t' = CHIEF \<and> state t \<noteq> CHIEF then map lcb_ref (becomeChiefCallbacks t) else [])
     \<and> becomeFollowerCalls (trace t') = becomeFollowerCalls (trace t) @
       (if state t' = FOLLOWER \<and> state t = CHIEF
        then map lcb_ref (becomeFollowerCallbacks t) else [])"

subsection \<open>Example instances\<close>

text \<open>
  An instance with id \<^verbatim>\<open>a\<close> created at time 100 with the default options, one task whose
  setup returns a cleanup, and one subscriber of each kind (the message subscriber
  throws); the same instance after \<^verbatim>\<open>start()\<close>, after winning the election at time 3100,
  and after accepting a heartbeat from \<^verbatim>\<open>b\<close> within the debounce window.
\<close>

definition exampleCleanup :: CleanupFunction where
  "exampleCleanup = CleanupFunction 7 (Returned ())"

definition exampleTask :: ExclusiveTask where
  "exampleTask = ExclusiveTask 1 (Returned (Some exampleCleanup))"

definition exampleMessageCallback :: MessageCallback where
  "exampleMessageCallback = MessageCallback 2 [] (\<lambda>d. Thrown ''listener failed'')"

definition exampleStateChangeCallback :: StateChangeCallback where
  "exampleStateChangeCallback = StateChangeCallback 3 [] (\<lambda>new old. Returned ())"

definition exampleBecomeChiefCallback :: LeadershipCallback where
  "exampleBecomeChiefCallback = LeadershipCallback 4 [] (Returned ())"

definition exampleBecomeFollowerCallback :: LeadershipCallback where
  "exampleBecomeFollowerCallback = LeadershipCallback 5 [] (Returned ())"

definition exampleNew :: TabChief where
  "exampleNew = TabChief_new ''a'' 100 None"

definition exampleElecting :: TabChief where
  "exampleElecting =
     run [Call_runExclusive exampleTask,
          Call_onMessage exampleMessageCallback,
          Call_onStateChange exampleStateChangeCallback,
          Call_onBecomeChief exampleBecomeChiefCallback,
          Call_onBecomeFollower exampleBecomeFollowerCallback,
          Call_start] exampleNew"

definition exampleChief :: TabChief where
  "exampleChief = run [ClockReads 3100, ElectionTimerFires, ClockReads 3500] exampleElecting"

definition exampleFollower :: TabChief where
  "exampleFollower =
     run [ClockReads 150, ChannelDelivers (BaseMessage HEARTBEAT ''b'' 150)] exampleElecting"

text \<open>
  Subscribers that call back into the instance: a message subscriber that unsubscribes
  itself when called, followed by one that does nothing; and a become-chief subscriber
  that registers an exclusive task, as in
  \<^verbatim>\<open>chief.onBecomeChief(() => chief.runExclusive(task))\<close>.
\<close>

definition exampleOnceCallback :: MessageCallback where
  "exampleOnceCallback = MessageCallback 6 [Reenter_offMessage 6] (\<lambda>d. Returned ())"

definition exampleLastCallback :: MessageCallback where
  "exampleLastCallback = MessageCallback 9 [] (\<lambda>d. Returned ())"

definition exampleLateTask :: ExclusiveTask where
  "exampleLateTask = ExclusiveTask 11 (Returned None)"

definition exampleRegisteringCallback :: LeadershipCallback where
  "exampleRegisteringCallback =
     LeadershipCallback 10 [Reenter_runExclusive exampleLateTask] (Returned ())"

definition exampleSubscribedChief :: TabChief where
  "exampleSubscribedChief =
     run [Call_onMessage exampleOnceCallback, Call_onMessage exampleLastCallback] exampleChief"

definition exampleRegisteringElecting :: TabChief where
  "exampleRegisteringElecting = run [Call_onBecomeChief exampleRegisteringCallback] exampleElecting"

section \<open>Peers on one channel\<close>

text \<open>
  Several instances and the messages that the channel still has to deliver, each with the
  index of the peer it is for. A \<^verbatim>\<open>BroadcastChannel\<close> hands a posted message to every
  other open channel object of the same name, never to the poster; delivery may be late
  and in any order. \<open>posted\<close> reads the messages that one step of a peer handed to the
  channel off the end of its trace. A peer index that does not exist leaves the network
  as it is, and so does the index of a message that is not in flight. All peers read the
  same wall clock.
\<close>

record network =
  peers :: "TabChief list"
  inflight :: "(nat \<times> ChannelMessage) list"

definition posted :: "TabChief \<Rightarrow> TabChief \<Rightarrow> ChannelMessage list" where
  "posted t t' = sentMessages (drop (length (trace t)) (trace t'))"

definition recipients :: "nat \<Rightarrow> network \<Rightarrow> nat list" where
  "recipients k net =
     filter (\<lambda>j. j \<noteq> k \<and> channel (peers net ! j) = Some (channelName (peers net ! k)))
       [0..<length (peers net)]"

definition peerStep :: "nat \<Rightarrow> input \<Rightarrow> network \<Rightarrow> network" where
  "peerStep k i net =
     (if k < length (peers net)
      then (let t = peers net ! k;
                t' = step i t
            in net\<lparr>peers := (peers net)[k := t'],
                   inflight := inflight net @
                     concat (map (\<lambda>m. map (\<lambda>j. (j, m)) (recipients k net)) (posted t t'))\<rparr>)
      else net)"

definition deliver :: "nat \<Rightarrow> network \<Rightarrow> network" where
  "deliver n net =
     (if n < length (inflight net)
      then peerStep (fst (inflight net ! n)) (ChannelDelivers (snd (inflight net ! n)))
             (net\<lparr>inflight := take n (inflight net) @ drop (Suc n) (inflight net)\<rparr>)
      else net)"

definition tick :: "int \<Rightarrow> network \<Rightarrow> network" where
  "tick now net = net\<lparr>peers := map (step (ClockReads now)) (peers net)\<rparr>"

datatype action = Peer nat input | Deliver nat | Tick int

fun netStep :: "action \<Rightarrow> network \<Rightarrow> network" where
  "netStep (Peer k i) net = peerStep k i net"
| "netStep (Deliver n) net = deliver n net"
| "netStep (Tick now) net = tick now net"

definition netRun :: "action list \<Rightarrow> network \<Rightarrow> network" where
  "netRun actions net = fold netStep actions net"

subsection \<open>Two peers whose election messages are late\<close>

text \<open>
  Peer \<^verbatim>\<open>a\<close> was created at time 100 and peer \<^verbatim>\<open>b\<close> at time 200, both with the default
  options. Both start at time 200; no message has been delivered when their election
  timers fire at time 3200, so both declare victory.
\<close>

definition twoPeers :: network where
  "twoPeers = \<lparr> peers = [TabChief_new ''a'' 100 None, TabChief_new ''b'' 200 None],
                inflight = [] \<rparr>"

definition bothDeclareVictory :: "action list" where
  "bothDeclareVictory =
     [Tick 200, Peer 0 Call_start, Peer 1 Call_start,
      Tick 3200, Peer 0 ElectionTimerFires, Peer 1 ElectionTimerFires, Tick 3300]"

text \<open>The same run, peer by peer.\<close>

definition started :: "string \<Rightarrow> int \<Rightarrow> TabChief" where
  "started i now = run [ClockReads 200, Call_start] (TabChief_new i now None)"

definition won :: "string \<Rightarrow> int \<Rightarrow> TabChief" where
  "won i now = run [ClockReads 3200, ElectionTimerFires] (started i now)"

text \<open>
  A chief that tracks itself, on an open channel, with no message subscriber, whose clock
  reads later than its creation time; what such a chief appends to its trace on a message from another peer;
  and the configurations of two such chiefs with a \<open>VICTORY\<close> in flight between them.
\<close>

definition chiefUnchallenged :: "TabChief \<Rightarrow> bool" where
  "chiefUnchallenged t \<longleftrightarrow>
     state t = CHIEF \<and> currentChiefId t = Some (tabId t) \<and> creationTimestamp t < clock t
     \<and> channel t = Some (channelName t) \<and> messageCallbacks t = []"

definition storm :: "network \<Rightarrow> bool" where
  "storm net \<longleftrightarrow>
     (\<exists>a b. peers net = [a, b] \<and> chiefUnchallenged a \<and> chiefUnchallenged b
        \<and> tabId a \<noteq> tabId b \<and> channelName a = channelName b
        \<and> (\<forall>x \<in> set (inflight net).
              (fst x = 0 \<and> senderId (snd x) = tabId b)
              \<or> (fst x = Suc 0 \<and> senderId (snd x) = tabId a)))
     \<and> VICTORY \<in> (msg_type \<circ> snd) ` set (inflight net)"

definition chiefReply :: "ChannelMessage \<Rightarrow> TabChief \<Rightarrow> event list" where
  "chiefReply m t =
     (case msg_type m of
        VICTORY \<Rightarrow> [ChannelPostMessage (BaseMessage VICTORY (tabId t) (clock t))]
      | ELECTION \<Rightarrow>
          (if shouldYieldTo t (senderId m) (timestamp m) then []
           else [ChannelPostMessage (BaseMessage ALIVE (tabId t) (creationTimestamp t))])
      | _ \<Rightarrow> [])"

section \<open>The operations as record updates\<close>

declare notifyMessageCallbacksFrom.simps [simp del]

declare visited.simps [simp del]

lemma same_state [simp]: "state t = n \<Longrightarrow> t\<lparr>state := n\<rparr> = t"
  by (cases t) simp

lemma same_heartbeatTimer [simp]: "heartbeatTimer t = v \<Longrightarrow> t\<lparr>heartbeatTimer := v\<rparr> = t"
  by (cases t) simp

lemma same_electionTimer [simp]: "electionTimer t = v \<Longrightarrow> t\<lparr>electionTimer := v\<rparr> = t"
  by (cases t) simp

lemma same_electionDebounceTimer [simp]:
  "electionDebounceTimer t = v \<Longrightarrow> t\<lparr>electionDebounceTimer := v\<rparr> = t"
  by (cases t) simp

lemma registered_simps [simp]:
  "registered [] = []"
  "registered (Reenter_runExclusive task # cs) = task # registered cs"
  "registered (Reenter_offMessage r # cs) = registered cs"
  "registered (xs @ ys) = registered xs @ registered ys"
  by (simp_all add: registered_def)

lemma unsubscribed_simps [simp]:
  "unsubscribed [] cbs = cbs"
  "unsubscribed (Reenter_runExclusive task # cs) cbs = unsubscribed cs cbs"
  "unsubscribed (Reenter_offMessage r # cs) cbs = unsubscribed cs (splice_first mcb_ref r cbs)"
  "unsubscribed (xs @ ys) cbs = unsubscribed ys (unsubscribed xs cbs)"
  by (simp_all add: unsubscribed_def)

lemma returnedCleanups_append [simp]:
  "returnedCleanups (xs @ ys) = returnedCleanups xs @ returnedCleanups ys"
  by (simp add: returnedCleanups_def)

lemma returnedCleanups_Nil [simp]: "returnedCleanups [] = []"
  by (simp add: returnedCleanups_def)

lemma taskEvents_append [simp]: "taskEvents (xs @ ys) = taskEvents xs @ taskEvents ys"
  by (simp add: taskEvents_def)

lemma taskEvents_Nil [simp]: "taskEvents [] = []"
  by (simp add: taskEvents_def)

lemma applied_Nil [simp]: "applied [] evs t = t\<lparr>trace := trace t @ evs\<rparr>"
  by (simp add: applied_def)

lemma state_applied [simp]: "state (applied calls evs t) = state t"
  by (simp add: applied_def)

lemma applied_applied [simp]:
  "applied cs2 evs2 (applied cs1 evs1 t) = applied (cs1 @ cs2) (evs1 @ evs2) t"
  by (simp add: applied_def)

lemma state_emit [simp]: "state (emit e t) = state t"
  by (simp add: emit_def)

lemma applied_emit: "applied cs evs (emit e t) = applied cs (e # evs) t"
  by (simp add: applied_def emit_def)

lemma emit_applied: "emit e (applied cs evs t) = applied cs (evs @ [e]) t"
  by (simp add: applied_def emit_def)

lemma runTask_eq:
  "runTask task t = t\<lparr>activeCleanups := activeCleanups t @ returnedCleanups [task],
                      trace := trace t @ taskEvents [task]\<rparr>"
  by (simp add: runTask_def emit_def guardedCall_def taskEvents_def returnedCleanups_def Let_def
           split: outcome.splits option.splits)

lemma runExclusive_eq:
  "runExclusive task t =
     t\<lparr>exclusiveTasks := exclusiveTasks t @ [task],
       activeCleanups := activeCleanups t @ (if state t = CHIEF then returnedCleanups [task] else []),
       trace := trace t @ (if state t = CHIEF then taskEvents [task] else [])\<rparr>"
  by (simp add: runExclusive_def Let_def runTask_eq)

lemma reenter_eq:
  "reenter c t = applied [c] (if state t = CHIEF then taskEvents (registered [c]) else []) t"
  by (cases c) (simp_all add: applied_def runExclusive_eq)

lemma fold_reenter_eq:
  "fold reenter calls t =
     applied calls (if state t = CHIEF then taskEvents (registered calls) else []) t"
proof (induction calls arbitrary: t)
  case Nil
  show ?case by simp
next
  case (Cons c cs)
  have "fold reenter (c # cs) t = fold reenter cs (reenter c t)" by simp
  also have "\<dots> = applied cs (if state (reenter c t) = CHIEF
                               then taskEvents (registered cs) else []) (reenter c t)"
    by (rule Cons.IH)
  also have "\<dots> = applied (c # cs) (if state t = CHIEF
                               then taskEvents (registered (c # cs)) else []) t"
    by (cases c) (simp_all add: reenter_eq taskEvents_def)
  finally show ?case .
qed

text \<open>A loop of guarded calls over a list that the calls do not change.\<close>

lemma fold_applies:
  assumes "\<And>x t. f x t = applied (calls x) (ev (state t = CHIEF) x) t"
  shows "fold f xs t =
           applied (concat (map calls xs)) (concat (map (ev (state t = CHIEF)) xs)) t"
proof (induction xs arbitrary: t)
  case Nil
  show ?case by simp
next
  case (Cons x xs)
  have "fold f (x # xs) t = fold f xs (f x t)" by simp
  also have "\<dots> = applied (concat (map calls xs))
                     (concat (map (ev (state (f x t) = CHIEF)) xs)) (f x t)"
    by (rule Cons.IH)
  also have "\<dots> = applied (concat (map calls (x # xs)))
                     (concat (map (ev (state t = CHIEF)) (x # xs))) t"
    by (simp add: assms)
  finally show ?case .
qed

lemma fold_appends_trace:
  assumes "\<And>x t. f x t = t\<lparr>trace := trace t @ ev x\<rparr>"
  shows "fold f xs t = t\<lparr>trace := trace t @ concat (map ev xs)\<rparr>"
proof (induction xs arbitrary: t)
  case Nil
  show ?case by simp
next
  case (Cons x xs)
  have "fold f (x # xs) t = fold f xs (f x t)" by simp
  also have "\<dots> = (f x t)\<lparr>trace := trace (f x t) @ concat (map ev xs)\<rparr>" by (rule Cons.IH)
  also have "\<dots> = t\<lparr>trace := trace t @ concat (map ev (x # xs))\<rparr>"
    by (simp add: assms)
  finally show ?case .
qed

lemma runCleanup_eq:
  "runCleanup c t = t\<lparr>trace := trace t @ guardedCall (RanCleanup (cleanup_ref c)) (cleanup_body c) ''[TabChief] Error running cleanup:''\<rparr>"
  by (simp add: runCleanup_def emit_def guardedCall_def Let_def split: outcome.splits)

lemma runCleanups_eq:
  "runCleanups t = t\<lparr>activeCleanups := [], trace := trace t @ cleanupEvents (activeCleanups t)\<rparr>"
  unfolding runCleanups_def cleanupEvents_def
  by (subst fold_appends_trace [where f = runCleanup, OF runCleanup_eq]) simp

lemma fold_runTask:
  "fold runTask tasks t = t\<lparr>activeCleanups := activeCleanups t @ returnedCleanups tasks,
                      trace := trace t @ taskEvents tasks\<rparr>"
proof (induction tasks arbitrary: t)
  case Nil show ?case by simp
next
  case (Cons c cs)
  have "fold runTask (c # cs) t = fold runTask cs (runTask c t)" by simp
  also have "\<dots> = (runTask c t)\<lparr>activeCleanups := activeCleanups (runTask c t) @ returnedCleanups cs,
                      trace := trace (runTask c t) @ taskEvents cs\<rparr>" by (rule Cons.IH)
  also have "\<dots> = t\<lparr>activeCleanups := activeCleanups t @ returnedCleanups (c # cs),
                      trace := trace t @ taskEvents (c # cs)\<rparr>"
    by (simp add: runTask_eq taskEvents_def returnedCleanups_def)
  finally show ?case .
qed

lemma runAllTasks_eq:
  "runAllTasks t = t\<lparr>activeCleanups := activeCleanups t @ returnedCleanups (exclusiveTasks t),
                      trace := trace t @ taskEvents (exclusiveTasks t)\<rparr>"
  by (simp add: runAllTasks_def fold_runTask)

lemma notifyMessageCallback_eq:
  "notifyMessageCallback d c t =
     applied (mcb_calls c)
       (observerCall (state t = CHIEF) (CalledMessageCallback (mcb_ref c) d) (mcb_calls c)
          (mcb_body c d) ''[TabChief] Error in message callback:'') t"
  by (simp add: notifyMessageCallback_def Let_def fold_reenter_eq applied_emit emit_applied
        observerCall_def split: outcome.splits)

lemma notifyMessageCallbacksFrom_visited:
  "notifyMessageCallbacksFrom i d t =
     fold (notifyMessageCallback d) (visited i (messageCallbacks t)) t"
proof (induction i d t rule: notifyMessageCallbacksFrom.induct)
  case (1 i d t)
  show ?case
  proof (cases "i < length (messageCallbacks t)")
    case False
    then show ?thesis
      by (simp add: notifyMessageCallbacksFrom.simps [of i d t] visited.simps [of i])
  next
    case True
    let ?c = "messageCallbacks t ! i"
    have m: "messageCallbacks (notifyMessageCallback d ?c t) =
        unsubscribed (mcb_calls ?c) (messageCallbacks t)"
      by (simp add: notifyMessageCallback_eq applied_def)
    have "notifyMessageCallbacksFrom i d t =
        notifyMessageCallbacksFrom (Suc i) d (notifyMessageCallback d ?c t)"
      using True by (simp add: notifyMessageCallbacksFrom.simps [of i d t])
    also have "\<dots> = fold (notifyMessageCallback d)
        (visited (Suc i) (messageCallbacks (notifyMessageCallback d ?c t)))
        (notifyMessageCallback d ?c t)"
      by (rule "1.IH" [OF True])
    also have "\<dots> = fold (notifyMessageCallback d) (visited i (messageCallbacks t)) t"
      using True by (simp only: m visited.simps [of i "messageCallbacks t"] if_True fold_simps o_apply)
    finally show ?thesis .
  qed
qed

lemma notifyMessageCallbacks_eq:
  "notifyMessageCallbacks d t =
     applied (concat (map mcb_calls (visited 0 (messageCallbacks t))))
       (messageCallbackEvents (state t = CHIEF) d (visited 0 (messageCallbacks t))) t"
  unfolding notifyMessageCallbacks_def notifyMessageCallbacksFrom_visited messageCallbackEvents_def
  by (rule fold_applies [where f = "notifyMessageCallback d", OF notifyMessageCallback_eq])

lemma notifyStateChangeCallback_eq:
  "notifyStateChangeCallback n old c t =
     applied (scb_calls c)
       (observerCall (state t = CHIEF) (CalledStateChangeCallback (scb_ref c) n old) (scb_calls c)
          (scb_body c n old) ''[TabChief] Error in state change callback:'') t"
  by (simp add: notifyStateChangeCallback_def Let_def fold_reenter_eq applied_emit emit_applied
        observerCall_def split: outcome.splits)

lemma notifyStateChangeCallbacks_eq:
  "notifyStateChangeCallbacks n old t =
     applied (concat (map scb_calls (stateChangeCallbacks t)))
       (stateChangeEvents (state t = CHIEF) n old (stateChangeCallbacks t)) t"
  unfolding notifyStateChangeCallbacks_def stateChangeEvents_def
  by (rule fold_applies [where f = "notifyStateChangeCallback n old",
        OF notifyStateChangeCallback_eq])

lemma notifyBecomeChiefCallback_eq:
  "notifyBecomeChiefCallback c t =
     applied (lcb_calls c)
       (observerCall (state t = CHIEF) (CalledBecomeChiefCallback (lcb_ref c)) (lcb_calls c)
          (lcb_body c) ''[TabChief] Error in become Chief callback:'') t"
  by (simp add: notifyBecomeChiefCallback_def Let_def fold_reenter_eq applied_emit emit_applied
        observerCall_def split: outcome.splits)

lemma notifyBecomeChiefCallbacks_eq:
  "notifyBecomeChiefCallbacks t =
     applied (concat (map lcb_calls (becomeChiefCallbacks t)))
       (becomeChiefEvents (state t = CHIEF) (becomeChiefCallbacks t)) t"
  unfolding notifyBecomeChiefCallbacks_def becomeChiefEvents_def
  by (rule fold_applies [where f = notifyBecomeChiefCallback, OF notifyBecomeChiefCallback_eq])

lemma notifyBecomeFollowerCallback_eq:
  "notifyBecomeFollowerCallback c t =
     applied (lcb_calls c)
       (observerCall (state t = CHIEF) (CalledBecomeFollowerCallback (lcb_ref c)) (lcb_calls c)
          (lcb_body c) ''[TabChief] Error in become Follower callback:'') t"
  by (simp add: notifyBecomeFollowerCallback_def Let_def fold_reenter_eq applied_emit emit_applied
        observerCall_def split: outcome.splits)

lemma notifyBecomeFollowerCallbacks_eq:
  "notifyBecomeFollowerCallbacks t =
     applied (concat (map lcb_calls (becomeFollowerCallbacks t)))
       (becomeFollowerEvents (state t = CHIEF) (becomeFollowerCallbacks t)) t"
  unfolding notifyBecomeFollowerCallbacks_def becomeFollowerEvents_def
  by (rule fold_applies [where f = notifyBecomeFollowerCallback,
        OF notifyBecomeFollowerCallback_eq])

lemma setState_eq:
  "setState n t = applied (setStateCalls n t) (setStateEvents n t) (t\<lparr>state := n\<rparr>)"
  by (simp add: setState_def Let_def setStateCalls_def setStateEvents_def
        notifyStateChangeCallbacks_eq notifyBecomeChiefCallbacks_eq
        notifyBecomeFollowerCallbacks_eq applied_def)

lemma applied_fields [simp]:
  "exclusiveTasks (applied cs evs t) = exclusiveTasks t @ registered cs"
  "activeCleanups (applied cs evs t) =
     activeCleanups t @ (if state t = CHIEF then returnedCleanups (registered cs) else [])"
  "messageCallbacks (applied cs evs t) = unsubscribed cs (messageCallbacks t)"
  "trace (applied cs evs t) = trace t @ evs"
  "channel (applied cs evs t) = channel t"
  "currentChiefId (applied cs evs t) = currentChiefId t"
  "heartbeatTimer (applied cs evs t) = heartbeatTimer t"
  "electionTimer (applied cs evs t) = electionTimer t"
  "electionDebounceTimer (applied cs evs t) = electionDebounceTimer t"
  "stateChangeCallbacks (applied cs evs t) = stateChangeCallbacks t"
  "becomeChiefCallbacks (applied cs evs t) = becomeChiefCallbacks t"
  "becomeFollowerCallbacks (applied cs evs t) = becomeFollowerCallbacks t"
  "boundBeforeUnload (applied cs evs t) = boundBeforeUnload t"
  "clock (applied cs evs t) = clock t"
  "tabId (applied cs evs t) = tabId t"
  "creationTimestamp (applied cs evs t) = creationTimestamp t"
  "channelName (applied cs evs t) = channelName t"
  "heartbeatInterval (applied cs evs t) = heartbeatInterval t"
  "electionTimeout (applied cs evs t) = electionTimeout t"
  by (simp_all add: applied_def)

lemma broadcast_eq:
  "broadcast m t = t\<lparr>trace := trace t @ sendEvents t [m]\<rparr>"
  by (simp add: broadcast_def emit_def sendEvents_def)

lemma stopHeartbeat_eq: "stopHeartbeat t = t\<lparr>heartbeatTimer := None\<rparr>"
  by (simp add: stopHeartbeat_def)

lemma clearElectionTimer_eq: "clearElectionTimer t = t\<lparr>electionTimer := None\<rparr>"
  by (simp add: clearElectionTimer_def)

lemma clearTimers_eq:
  "clearTimers t = t\<lparr>heartbeatTimer := None, electionTimer := None, electionDebounceTimer := None\<rparr>"
  by (simp add: clearTimers_def Let_def stopHeartbeat_eq clearElectionTimer_eq)

lemma resetElectionTimeout_eq:
  "resetElectionTimeout t = t\<lparr>electionTimer := Some (Pending ChiefSeemsDead (electionTimeout t))\<rparr>"
  by (simp add: resetElectionTimeout_def Let_def clearElectionTimer_eq)

lemma sendHeartbeat_eq:
  "sendHeartbeat t = t\<lparr>trace := trace t @ sendEvents t [BaseMessage HEARTBEAT (tabId t) (clock t)]\<rparr>"
  by (simp add: sendHeartbeat_def broadcast_eq)

lemma startHeartbeat_eq:
  "startHeartbeat t = t\<lparr>heartbeatTimer := Some (heartbeatInterval t),
      trace := trace t @ sendEvents t [BaseMessage HEARTBEAT (tabId t) (clock t)]\<rparr>"
  by (simp add: startHeartbeat_def Let_def stopHeartbeat_eq sendHeartbeat_eq sendEvents_def)

lemma startElection_eq:
  "startElection t =
     (if electionDebounceTimer t \<noteq> None then t
      else t\<lparr>state := ELECTING,
             electionTimer := Some (Pending CallDeclareVictory (electionTimeout t)),
             electionDebounceTimer := Some ELECTION_DEBOUNCE_TIME,
             exclusiveTasks := exclusiveTasks t @ registered (setStateCalls ELECTING t),
             messageCallbacks := unsubscribed (setStateCalls ELECTING t) (messageCallbacks t),
             trace := trace t @ setStateEvents ELECTING t @
                      sendEvents t [BaseMessage ELECTION (tabId t) (creationTimestamp t)]\<rparr>)"
  by (simp add: startElection_def Let_def setState_eq clearElectionTimer_eq broadcast_eq
        sendEvents_def setStateEvents_def setStateCalls_def applied_def)

lemma declareVictory_eq:
  "declareVictory t =
     t\<lparr>state := CHIEF,
       currentChiefId := Some (tabId t),
       heartbeatTimer := Some (heartbeatInterval t),
       electionTimer := None,
       exclusiveTasks := exclusiveTasks t @ registered (setStateCalls CHIEF t),
       activeCleanups := activeCleanups t @ returnedCleanups (registered (setStateCalls CHIEF t)) @
                returnedCleanups (exclusiveTasks t @ registered (setStateCalls CHIEF t)),
       messageCallbacks := unsubscribed (setStateCalls CHIEF t) (messageCallbacks t),
       trace := trace t @ setStateEvents CHIEF t @
                sendEvents t [BaseMessage VICTORY (tabId t) (clock t),
                              BaseMessage HEARTBEAT (tabId t) (clock t)] @
                taskEvents (exclusiveTasks t @ registered (setStateCalls CHIEF t))\<rparr>"
  by (simp add: declareVictory_def Let_def setState_eq clearElectionTimer_eq broadcast_eq
        startHeartbeat_eq runAllTasks_eq sendEvents_def setStateEvents_def setStateCalls_def
        applied_def)

lemma becomeFollower_eq:
  "becomeFollower chiefId t =
     t\<lparr>state := FOLLOWER,
       currentChiefId := Some chiefId,
       heartbeatTimer := None,
       electionTimer := Some (Pending ChiefSeemsDead (electionTimeout t)),
       exclusiveTasks := exclusiveTasks t @ registered (setStateCalls FOLLOWER t),
       activeCleanups := (if state t = CHIEF then [] else activeCleanups t),
       messageCallbacks := unsubscribed (setStateCalls FOLLOWER t) (messageCallbacks t),
       trace := trace t @ setStateEvents FOLLOWER t @
                (if state t = CHIEF then cleanupEvents (activeCleanups t) else [])\<rparr>"
  by (simp add: becomeFollower_def Let_def setState_eq stopHeartbeat_eq runCleanups_eq
        resetElectionTimeout_eq setStateEvents_def setStateCalls_def applied_def)

lemma stop_eq:
  "stop t =
     (if state t = STOPPED \<or> state t = IDLE then t
      else t\<lparr>channel := None,
             state := STOPPED,
             currentChiefId := None,
             heartbeatTimer := None,
             electionTimer := None,
             electionDebounceTimer := None,
             exclusiveTasks := exclusiveTasks t @ registered (setStateCalls STOPPED t),
             activeCleanups := [],
             messageCallbacks := unsubscribed (setStateCalls STOPPED t) (messageCallbacks t),
             boundBeforeUnload := False,
             trace := trace t @
               (if state t = CHIEF
                then sendEvents t [BaseMessage SHUTDOWN (tabId t) (clock t)] else []) @
               cleanupEvents (activeCleanups t) @
               (if boundBeforeUnload t then [RemovedBeforeUnloadListener] else []) @
               (if channel t \<noteq> None then [ChannelClosed] else []) @
               setStateEvents STOPPED t\<rparr>)"
proof (cases "state t = STOPPED \<or> state t = IDLE")
  case True
  then show ?thesis by (simp add: stop_def)
next
  case False
  then show ?thesis
    by (simp add: stop_def Let_def broadcast_eq runCleanups_eq clearTimers_eq setState_eq
          emit_def sendEvents_def setStateEvents_def setStateCalls_def applied_def)
qed

lemma start_eq:
  "start t =
     (if state t \<noteq> IDLE \<and> state t \<noteq> STOPPED then t
      else if electionDebounceTimer t \<noteq> None
      then t\<lparr>channel := Some (channelName t), boundBeforeUnload := True,
             trace := trace t @ [ChannelOpened (channelName t), AddedBeforeUnloadListener]\<rparr>
      else t\<lparr>channel := Some (channelName t),
             state := ELECTING,
             electionTimer := Some (Pending CallDeclareVictory (electionTimeout t)),
             electionDebounceTimer := Some ELECTION_DEBOUNCE_TIME,
             exclusiveTasks := exclusiveTasks t @ registered (setStateCalls ELECTING t),
             messageCallbacks := unsubscribed (setStateCalls ELECTING t) (messageCallbacks t),
             boundBeforeUnload := True,
             trace := trace t @ [ChannelOpened (channelName t), AddedBeforeUnloadListener] @
                      setStateEvents ELECTING t @
                      [ChannelPostMessage (BaseMessage ELECTION (tabId t) (creationTimestamp t))]\<rparr>)"
  by (simp add: start_def Let_def startElection_eq emit_def sendEvents_def setStateEvents_def
        setStateCalls_def)

lemma handleBeforeUnload_eq:
  "handleBeforeUnload t =
     t\<lparr>activeCleanups := [],
       trace := trace t @
         (if state t = CHIEF
          then sendEvents t [BaseMessage SHUTDOWN (tabId t) (clock t)] else []) @
         cleanupEvents (activeCleanups t)\<rparr>"
  by (simp add: handleBeforeUnload_def Let_def broadcast_eq runCleanups_eq)

lemma postMessage_eq:
  "postMessage data t =
     (if channel t = None \<or> state t = STOPPED \<or> state t = IDLE then Returned t
      else if \<not> structuredCloneable data then Thrown ''DataCloneError''
      else Returned
        (applied (concat (map mcb_calls (visited 0 (messageCallbacks t))))
           (ChannelPostMessage \<lparr> msg_type = DATA, senderId = tabId t, timestamp = clock t,
                                 payload = data \<rparr> #
            messageCallbackEvents (state t = CHIEF) data (visited 0 (messageCallbacks t))) t))"
  by (simp add: postMessage_def Let_def notifyMessageCallbacks_eq applied_emit emit_def)

lemma handleHeartbeat_eq:
  "handleHeartbeat sender t =
     (if state t = CHIEF \<and> sender \<noteq> tabId t
      then (if shouldYieldTo t sender (clock t) then becomeFollower sender t else t)
      else if state t = ELECTING \<or> state t = FOLLOWER then becomeFollower sender t
      else t)"
  by (simp add: handleHeartbeat_def becomeFollower_eq setStateEvents_def setStateCalls_def)

lemma electionTimerFires_eq:
  "electionTimerFires t =
     (case electionTimer t of
        Some (Pending CallDeclareVictory delay) \<Rightarrow> declareVictory t
      | Some (Pending ChiefSeemsDead delay) \<Rightarrow>
          (if electionDebounceTimer t \<noteq> None
           then t\<lparr>electionTimer := Some Fired, currentChiefId := None\<rparr>
           else startElection (t\<lparr>currentChiefId := None\<rparr>))
      | _ \<Rightarrow> t)"
  by (simp add: electionTimerFires_def Let_def declareVictory_eq startElection_eq
        setStateEvents_def setStateCalls_def sendEvents_def
        split: option.splits timer.splits timer_callback.splits)

text \<open>The loop over the message subscribers reaches every entry when none unsubscribes.\<close>

lemma visited_Nil [simp]: "visited i [] = []"
  by (simp add: visited.simps [of i "[]"])

lemma unsubscribed_none: "offMessageCalls cs = [] \<Longrightarrow> unsubscribed cs cbs = cbs"
proof (induction cs)
  case Nil
  show ?case by simp
next
  case (Cons c cs)
  then show ?case by (cases c) (simp_all add: offMessageCalls_def)
qed

lemma visited_drop_keeps:
  "\<forall>c \<in> set cbs. offMessageCalls (mcb_calls c) = [] \<Longrightarrow> visited i cbs = drop i cbs"
proof (induction "length cbs - i" arbitrary: i)
  case 0
  then show ?case by (simp add: visited.simps [of i cbs])
next
  case (Suc n)
  then have i: "i < length cbs" by simp
  then have "unsubscribed (mcb_calls (cbs ! i)) cbs = cbs"
    using Suc.prems by (simp add: unsubscribed_none)
  moreover have "visited (Suc i) cbs = drop (Suc i) cbs"
    using Suc.hyps(1) [of "Suc i"] Suc.hyps(2) Suc.prems by simp
  ultimately show ?case
    using i by (simp add: visited.simps [of i cbs] Cons_nth_drop_Suc)
qed

lemma visited_keeps:
  "\<forall>c \<in> set cbs. offMessageCalls (mcb_calls c) = [] \<Longrightarrow> visited 0 cbs = cbs"
  by (simp add: visited_drop_keeps)

lemma visited_inert: "\<forall>c \<in> set cbs. mcb_calls c = [] \<Longrightarrow> visited 0 cbs = cbs"
  by (rule visited_keeps) (simp add: offMessageCalls_def)

lemma calls_inert:
  "\<forall>c \<in> set cbs. f c = [] \<Longrightarrow> concat (map f cbs) = []"
  by (induction cbs) simp_all

lemma setStateCalls_inert [simp]: "inert t \<Longrightarrow> setStateCalls n t = []"
  by (simp add: inert_def setStateCalls_def calls_inert)

section \<open>Reading the trace of an operation\<close>

lemma proj_append [simp]:
  "ranTasks (xs @ ys) = ranTasks xs @ ranTasks ys"
  "ranCleanups (xs @ ys) = ranCleanups xs @ ranCleanups ys"
  "messageCalls (xs @ ys) = messageCalls xs @ messageCalls ys"
  "stateChangeCalls (xs @ ys) = stateChangeCalls xs @ stateChangeCalls ys"
  "becomeChiefCalls (xs @ ys) = becomeChiefCalls xs @ becomeChiefCalls ys"
  "becomeFollowerCalls (xs @ ys) = becomeFollowerCalls xs @ becomeFollowerCalls ys"
  "sentMessages (xs @ ys) = sentMessages xs @ sentMessages ys"
  by (simp_all add: ranTasks_def ranCleanups_def messageCalls_def stateChangeCalls_def
        becomeChiefCalls_def becomeFollowerCalls_def sentMessages_def)

lemma proj_Nil [simp]:
  "ranTasks [] = []" "ranCleanups [] = []" "messageCalls [] = []" "stateChangeCalls [] = []"
  "becomeChiefCalls [] = []" "becomeFollowerCalls [] = []" "sentMessages [] = []"
  by (simp_all add: ranTasks_def ranCleanups_def messageCalls_def stateChangeCalls_def
        becomeChiefCalls_def becomeFollowerCalls_def sentMessages_def)

lemma proj_Cons:
  "ranTasks (e # es) = (case e of RanTask r \<Rightarrow> [r] | _ \<Rightarrow> []) @ ranTasks es"
  "ranCleanups (e # es) = (case e of RanCleanup r \<Rightarrow> [r] | _ \<Rightarrow> []) @ ranCleanups es"
  "messageCalls (e # es) = (case e of CalledMessageCallback r d \<Rightarrow> [(r, d)] | _ \<Rightarrow> []) @ messageCalls es"
  "stateChangeCalls (e # es) =
     (case e of CalledStateChangeCallback r new old \<Rightarrow> [(r, new, old)] | _ \<Rightarrow> []) @ stateChangeCalls es"
  "becomeChiefCalls (e # es) = (case e of CalledBecomeChiefCallback r \<Rightarrow> [r] | _ \<Rightarrow> []) @ becomeChiefCalls es"
  "becomeFollowerCalls (e # es) =
     (case e of CalledBecomeFollowerCallback r \<Rightarrow> [r] | _ \<Rightarrow> []) @ becomeFollowerCalls es"
  "sentMessages (e # es) = (case e of ChannelPostMessage m \<Rightarrow> [m] | _ \<Rightarrow> []) @ sentMessages es"
  by (simp_all add: ranTasks_def ranCleanups_def messageCalls_def stateChangeCalls_def
        becomeChiefCalls_def becomeFollowerCalls_def sentMessages_def)

text \<open>Reading the calls of one kind out of a run of guarded calls.\<close>

lemma concat_map_guardedCalls:
  assumes "\<And>l err. f (ConsoleError l err) = []"
  shows "concat (map f (concat (map (\<lambda>c. guardedCall (e c) (b c) lab) xs))) =
         concat (map (\<lambda>c. f (e c)) xs)"
  by (induction xs) (simp_all add: guardedCall_def assms split: outcome.splits)

lemma proj_cleanupEvents [simp]:
  "ranCleanups (cleanupEvents cs) = map cleanup_ref cs"
  "ranTasks (cleanupEvents cs) = []"
  "messageCalls (cleanupEvents cs) = []"
  "stateChangeCalls (cleanupEvents cs) = []"
  "becomeChiefCalls (cleanupEvents cs) = []"
  "becomeFollowerCalls (cleanupEvents cs) = []"
  "sentMessages (cleanupEvents cs) = []"
  unfolding ranTasks_def ranCleanups_def messageCalls_def stateChangeCalls_def
        becomeChiefCalls_def becomeFollowerCalls_def sentMessages_def cleanupEvents_def
  by (simp_all add: concat_map_guardedCalls)

lemma proj_taskEvents [simp]:
  "ranTasks (taskEvents ts) = map task_ref ts"
  "ranCleanups (taskEvents ts) = []"
  "messageCalls (taskEvents ts) = []"
  "stateChangeCalls (taskEvents ts) = []"
  "becomeChiefCalls (taskEvents ts) = []"
  "becomeFollowerCalls (taskEvents ts) = []"
  "sentMessages (taskEvents ts) = []"
  unfolding ranTasks_def ranCleanups_def messageCalls_def stateChangeCalls_def
        becomeChiefCalls_def becomeFollowerCalls_def sentMessages_def taskEvents_def
  by (simp_all add: concat_map_guardedCalls)

text \<open>
  Reading the trace of a loop over subscribers: the setups of the tasks that the callbacks
  register, when these run, and the calls of the callbacks.
\<close>

lemma ranTasks_observerCalls:
  assumes "\<And>c. ranTasks [e c] = []"
  shows "ranTasks (concat (map (\<lambda>c. observerCall chief (e c) (calls c) (b c) lab) xs)) =
         (if chief then map task_ref (registered (concat (map calls xs))) else [])"
proof (induction xs)
  case Nil
  show ?case by simp
next
  case (Cons x xs)
  have "ranTasks (observerCall chief (e x) (calls x) (b x) lab) =
      (if chief then map task_ref (registered (calls x)) else [])"
    using assms [of x] by (simp add: observerCall_def proj_Cons split: outcome.splits)
  with Cons show ?case by simp
qed

lemma proj_observerCalls:
  assumes "\<And>l err. f [ConsoleError l err] = []" "\<And>ts. f (taskEvents ts) = []" "f [] = []"
    and "\<And>xs ys. f (xs @ ys) = f xs @ f ys"
  shows "f (concat (map (\<lambda>c. observerCall chief (e c) (calls c) (b c) lab) xs)) =
         concat (map (\<lambda>c. f [e c]) xs)"
proof (induction xs)
  case Nil
  show ?case by (simp add: assms)
next
  case (Cons x xs)
  have a: "f (if chief then taskEvents (registered (calls x)) else []) = []"
    by (simp add: assms)
  have b: "f (case b x of Returned _ \<Rightarrow> [] | Thrown err \<Rightarrow> [ConsoleError lab err]) = []"
    by (cases "b x") (simp_all add: assms)
  have "f (observerCall chief (e x) (calls x) (b x) lab) =
      f ([e x] @ (if chief then taskEvents (registered (calls x)) else []) @
         (case b x of Returned _ \<Rightarrow> [] | Thrown err \<Rightarrow> [ConsoleError lab err]))"
    by (simp add: observerCall_def)
  also have "\<dots> = f [e x]"
    by (simp only: assms(4) a b append_Nil2)
  finally have "f (observerCall chief (e x) (calls x) (b x) lab) = f [e x]" .
  with Cons show ?case by (simp add: assms)
qed

lemma proj_single:
  "ranTasks [ConsoleError l err] = []"
  "ranCleanups [ConsoleError l err] = []"
  "messageCalls [ConsoleError l err] = []"
  "stateChangeCalls [ConsoleError l err] = []"
  "becomeChiefCalls [ConsoleError l err] = []"
  "becomeFollowerCalls [ConsoleError l err] = []"
  "sentMessages [ConsoleError l err] = []"
  by (simp_all add: proj_Cons)

lemmas proj_observers =
  proj_observerCalls [where f = ranCleanups] proj_observerCalls [where f = messageCalls]
  proj_observerCalls [where f = stateChangeCalls] proj_observerCalls [where f = becomeChiefCalls]
  proj_observerCalls [where f = becomeFollowerCalls] proj_observerCalls [where f = sentMessages]

lemma proj_messageCallbackEvents [simp]:
  "messageCalls (messageCallbackEvents chief d cbs) = map (\<lambda>c. (mcb_ref c, d)) cbs"
  "ranTasks (messageCallbackEvents chief d cbs) =
     (if chief then map task_ref (registered (concat (map mcb_calls cbs))) else [])"
  "ranCleanups (messageCallbackEvents chief d cbs) = []"
  "stateChangeCalls (messageCallbackEvents chief d cbs) = []"
  "becomeChiefCalls (messageCallbackEvents chief d cbs) = []"
  "becomeFollowerCalls (messageCallbackEvents chief d cbs) = []"
  "sentMessages (messageCallbackEvents chief d cbs) = []"
  unfolding messageCallbackEvents_def
  by (simp_all add: ranTasks_observerCalls proj_observers proj_single proj_Cons)

lemma proj_stateChangeEvents [simp]:
  "stateChangeCalls (stateChangeEvents chief n old cbs) = map (\<lambda>c. (scb_ref c, n, old)) cbs"
  "ranTasks (stateChangeEvents chief n old cbs) =
     (if chief then map task_ref (registered (concat (map scb_calls cbs))) else [])"
  "ranCleanups (stateChangeEvents chief n old cbs) = []"
  "messageCalls (stateChangeEvents chief n old cbs) = []"
  "becomeChiefCalls (stateChangeEvents chief n old cbs) = []"
  "becomeFollowerCalls (stateChangeEvents chief n old cbs) = []"
  "sentMessages (stateChangeEvents chief n old cbs) = []"
  unfolding stateChangeEvents_def
  by (simp_all add: ranTasks_observerCalls proj_observers proj_single proj_Cons)

lemma proj_becomeChiefEvents [simp]:
  "becomeChiefCalls (becomeChiefEvents chief cbs) = map lcb_ref cbs"
  "ranTasks (becomeChiefEvents chief cbs) =
     (if chief then map task_ref (registered (concat (map lcb_calls cbs))) else [])"
  "ranCleanups (becomeChiefEvents chief cbs) = []"
  "messageCalls (becomeChiefEvents chief cbs) = []"
  "stateChangeCalls (becomeChiefEvents chief cbs) = []"
  "becomeFollowerCalls (becomeChiefEvents chief cbs) = []"
  "sentMessages (becomeChiefEvents chief cbs) = []"
  unfolding becomeChiefEvents_def
  by (simp_all add: ranTasks_observerCalls proj_observers proj_single proj_Cons)

lemma proj_becomeFollowerEvents [simp]:
  "becomeFollowerCalls (becomeFollowerEvents chief cbs) = map lcb_ref cbs"
  "ranTasks (becomeFollowerEvents chief cbs) =
     (if chief then map task_ref (registered (concat (map lcb_calls cbs))) else [])"
  "ranCleanups (becomeFollowerEvents chief cbs) = []"
  "messageCalls (becomeFollowerEvents chief cbs) = []"
  "stateChangeCalls (becomeFollowerEvents chief cbs) = []"
  "becomeChiefCalls (becomeFollowerEvents chief cbs) = []"
  "sentMessages (becomeFollowerEvents chief cbs) = []"
  unfolding becomeFollowerEvents_def
  by (simp_all add: ranTasks_observerCalls proj_observers proj_single proj_Cons)

lemma proj_setStateEvents [simp]:
  "ranTasks (setStateEvents n t) =
     (if n = CHIEF then map task_ref (registered (setStateCalls n t)) else [])"
  "ranCleanups (setStateEvents n t) = []"
  "messageCalls (setStateEvents n t) = []"
  "sentMessages (setStateEvents n t) = []"
  by (simp_all add: setStateEvents_def setStateCalls_def)

lemma proj_setStateEvents_observers:
  "stateChangeCalls (setStateEvents n t) =
     (if n \<noteq> state t then map (\<lambda>c. (scb_ref c, n, state t)) (stateChangeCallbacks t) else [])"
  "becomeChiefCalls (setStateEvents n t) =
     (if n = CHIEF \<and> state t \<noteq> CHIEF then map lcb_ref (becomeChiefCallbacks t) else [])"
  "becomeFollowerCalls (setStateEvents n t) =
     (if n = FOLLOWER \<and> state t = CHIEF then map lcb_ref (becomeFollowerCallbacks t) else [])"
  by (auto simp add: setStateEvents_def)

lemma proj_posts:
  "sentMessages (map ChannelPostMessage ms) = ms"
  "ranTasks (map ChannelPostMessage ms) = []"
  "ranCleanups (map ChannelPostMessage ms) = []"
  "messageCalls (map ChannelPostMessage ms) = []"
  "stateChangeCalls (map ChannelPostMessage ms) = []"
  "becomeChiefCalls (map ChannelPostMessage ms) = []"
  "becomeFollowerCalls (map ChannelPostMessage ms) = []"
  by (induction ms) (simp_all add: proj_Cons)

lemma proj_sendEvents [simp]:
  "sentMessages (sendEvents t ms) = (if channel t \<noteq> None then ms else [])"
  "ranTasks (sendEvents t ms) = []"
  "ranCleanups (sendEvents t ms) = []"
  "messageCalls (sendEvents t ms) = []"
  "stateChangeCalls (sendEvents t ms) = []"
  "becomeChiefCalls (sendEvents t ms) = []"
  "becomeFollowerCalls (sendEvents t ms) = []"
  by (simp_all add: sendEvents_def proj_posts)

section \<open>The invariant holds in every reachable instance\<close>

lemma step_postMessage:
  "step (Call_postMessage d) t =
     (if channel t = None \<or> state t = STOPPED \<or> state t = IDLE \<or> \<not> structuredCloneable d
      then t
      else applied (concat (map mcb_calls (visited 0 (messageCallbacks t))))
           (ChannelPostMessage \<lparr> msg_type = DATA, senderId = tabId t, timestamp = clock t,
                                 payload = d \<rparr> #
            messageCallbackEvents (state t = CHIEF) d (visited 0 (messageCallbacks t))) t)"
  by (simp add: postMessage_eq)

lemma inv_new: "inv (TabChief_new newId now options)"
  by (simp add: inv_def TabChief_new_def)

lemma inv_applied [simp]: "inv (applied cs evs t) = inv t"
  by (simp add: inv_def)

lemma inv_trace [simp]: "inv (t\<lparr>trace := evs\<rparr>) = inv t"
  by (simp add: inv_def)

lemma inv_start: "inv t \<Longrightarrow> inv (start t)"
  by (auto simp add: inv_def start_eq)

lemma inv_stop: "inv t \<Longrightarrow> inv (stop t)"
  by (auto simp add: inv_def stop_eq)

lemma inv_runExclusive: "inv t \<Longrightarrow> inv (runExclusive task t)"
  by (auto simp add: inv_def runExclusive_eq)

lemma inv_postMessage: "inv t \<Longrightarrow> inv (step (Call_postMessage d) t)"
  unfolding step_postMessage by simp

lemma inv_handleBeforeUnload: "inv t \<Longrightarrow> inv (handleBeforeUnload t)"
  by (auto simp add: inv_def handleBeforeUnload_eq)

lemma inv_startElection: "inv t \<Longrightarrow> state t \<noteq> CHIEF \<Longrightarrow> channel t \<noteq> None \<Longrightarrow> inv (startElection t)"
  by (auto simp add: inv_def startElection_eq)

lemma inv_becomeFollower: "inv t \<Longrightarrow> channel t \<noteq> None \<Longrightarrow> inv (becomeFollower c t)"
  by (auto simp add: inv_def becomeFollower_eq)

lemma inv_declareVictory: "inv t \<Longrightarrow> state t \<noteq> CHIEF \<Longrightarrow> channel t \<noteq> None \<Longrightarrow> inv (declareVictory t)"
  by (auto simp add: inv_def declareVictory_eq)

lemma inv_handleMessage: 
  assumes "inv t" "channel t \<noteq> None"
  shows "inv (handleMessage m t)"
proof (cases "senderId m = tabId t")
  case True
  then show ?thesis using assms by (simp add: handleMessage_def)
next
  case False
  show ?thesis
  proof (cases "msg_type m")
    case HEARTBEAT
    then show ?thesis using assms False
      by (simp add: handleMessage_def handleHeartbeat_eq inv_becomeFollower)
  next
    case ELECTION
    have "inv (broadcast x t)" for x using assms by (simp add: broadcast_eq)
    moreover have "channel (broadcast x t) \<noteq> None" for x using assms by (simp add: broadcast_eq)
    moreover have "state (broadcast x t) = state t" for x by (simp add: broadcast_eq)
    ultimately show ?thesis using ELECTION assms False
      by (simp add: handleMessage_def handleElectionRequest_def Let_def inv_startElection)
  next
    case VICTORY
    then show ?thesis using assms False
      by (simp add: handleMessage_def handleVictory_def inv_becomeFollower broadcast_eq)
  next
    case ALIVE
    have "inv (resetElectionTimeout (setState FOLLOWER (clearElectionTimer t)))"
      if "state t = ELECTING"
      using assms that
      by (auto simp add: inv_def resetElectionTimeout_eq setState_eq clearElectionTimer_eq)
    then show ?thesis using ALIVE assms False
      by (simp add: handleMessage_def handleAliveResponse_def)
  next
    case DATA
    then show ?thesis using assms False
      by (simp add: handleMessage_def notifyMessageCallbacks_eq)
  next
    case SHUTDOWN
    have "inv (startElection (t\<lparr>currentChiefId := None\<rparr>))" if "state t \<noteq> CHIEF"
      using assms that by (intro inv_startElection) (auto simp add: inv_def)
    moreover have "state t \<noteq> CHIEF" if "Some (senderId m) = currentChiefId t"
      using assms False that by (auto simp add: inv_def)
    ultimately show ?thesis using SHUTDOWN assms False
      by (simp add: handleMessage_def handleShutdown_def)
  qed
qed

lemma inv_electionTimerFires: "inv t \<Longrightarrow> inv (electionTimerFires t)"
proof (cases "electionTimer t")
  case None
  assume "inv t"
  then show ?thesis using None by (simp add: electionTimerFires_def)
next
  case (Some x)
  assume i: "inv t"
  then have s: "state t \<noteq> CHIEF" "channel t \<noteq> None" using Some by (auto simp add: inv_def)
  show ?thesis
  proof (cases x)
    case Fired
    then show ?thesis using Some i by (simp add: electionTimerFires_def)
  next
    case (Pending callback delay)
    show ?thesis
    proof (cases callback)
      case CallDeclareVictory
      then show ?thesis using Some Pending i s
        by (simp add: electionTimerFires_eq inv_declareVictory)
    next
      case ChiefSeemsDead
      have "inv (t\<lparr>electionTimer := Some Fired, currentChiefId := None\<rparr>)"
        using i s by (auto simp add: inv_def)
      moreover have "inv (startElection (t\<lparr>currentChiefId := None\<rparr>))"
        using i s by (intro inv_startElection) (auto simp add: inv_def)
      ultimately show ?thesis using Some Pending ChiefSeemsDead
        by (simp add: electionTimerFires_eq)
    qed
  qed
qed

lemma inv_step: "inv t \<Longrightarrow> inv (step i t)"
proof (cases i)
  case (Call_postMessage d)
  assume "inv t"
  then show ?thesis unfolding Call_postMessage by (rule inv_postMessage)
next
  case ElectionDebounceTimerFires
  assume "inv t"
  then show ?thesis using ElectionDebounceTimerFires
    by (auto simp add: inv_def electionDebounceTimerFires_def)
next
  case HeartbeatTimerFires
  assume "inv t"
  then show ?thesis using HeartbeatTimerFires
    by (simp add: heartbeatTimerFires_def sendHeartbeat_eq)
next
  case (ClockReads now)
  assume "inv t"
  then show ?thesis using ClockReads by (simp add: inv_def)
qed (simp_all add: inv_start inv_stop inv_runExclusive inv_handleMessage inv_handleBeforeUnload
      inv_electionTimerFires inv_def [of "onMessage _ _"] inv_def [of "offMessage _ _"]
      inv_def [of "onStateChange _ _"] inv_def [of "offStateChange _ _"]
      inv_def [of "onBecomeChief _ _"] inv_def [of "offBecomeChief _ _"]
      inv_def [of "onBecomeFollower _ _"] inv_def [of "offBecomeFollower _ _"]
      onMessage_def offMessage_def onStateChange_def offStateChange_def
      onBecomeChief_def offBecomeChief_def onBecomeFollower_def offBecomeFollower_def,
     simp_all add: inv_def)

lemma reachable_inv: "reachable t \<Longrightarrow> inv t"
  by (induction rule: reachable.induct) (simp_all add: inv_new inv_step)

section \<open>Setups and cleanups along the steps of a run\<close>

lemma lifecycle_grown:
  assumes "exclusiveTasks t' = exclusiveTasks t @ new"
    and "state t \<noteq> CHIEF \<and> state t' = CHIEF \<Longrightarrow>
         ranTasks (trace t') = ranTasks (trace t) @ map task_ref new @
           map task_ref (exclusiveTasks t) @ map task_ref new
         \<and> activeCleanups t' = returnedCleanups new @ returnedCleanups (exclusiveTasks t) @
           returnedCleanups new"
    and "state t = CHIEF \<and> state t' = CHIEF \<Longrightarrow>
         ranTasks (trace t') = ranTasks (trace t) @ map task_ref new
         \<and> activeCleanups t' =
           (if i = BeforeUnload then [] else activeCleanups t @ returnedCleanups new)"
    and "state t' \<noteq> CHIEF \<Longrightarrow> ranTasks (trace t') = ranTasks (trace t) \<and> activeCleanups t' = []"
    and "ranCleanups (trace t') = ranCleanups (trace t) @
       (if state t = CHIEF \<and> state t' \<noteq> CHIEF \<or> i = BeforeUnload
        then map cleanup_ref (activeCleanups t) else [])"
    and "i = BeforeUnload \<Longrightarrow> state t' = state t"
  shows "lifecycle i t t'"
proof -
  have a: "addedTasks t t' = new" by (simp add: addedTasks_def assms(1))
  show ?thesis
  proof (cases "state t' = CHIEF")
    case False
    then show ?thesis using assms(4,5) by (simp add: lifecycle_def a assms(1))
  next
    case True
    show ?thesis
    proof (cases "state t = CHIEF")
      case False
      then show ?thesis using True assms(2,5,6)
        by (auto simp add: lifecycle_def a assms(1))
    next
      case c: True
      then show ?thesis using True assms(3,5)
        by (simp add: lifecycle_def a assms(1))
    qed
  qed
qed

lemma lifecycle_refl: "inv t \<Longrightarrow> i \<noteq> BeforeUnload \<Longrightarrow> lifecycle i t t"
  by (rule lifecycle_grown [where new = "[]"]) (simp_all add: inv_def)

lemma lifecycle_trace:
  "inv t \<Longrightarrow> ranTasks evs = [] \<Longrightarrow> ranCleanups evs = [] \<Longrightarrow> i \<noteq> BeforeUnload \<Longrightarrow>
   lifecycle i t (t\<lparr>trace := trace t @ evs\<rparr>)"
  by (rule lifecycle_grown [where new = "[]"]) (simp_all add: inv_def)

lemma lifecycle_start: "inv t \<Longrightarrow> lifecycle Call_start t (start t)"
  by (rule lifecycle_grown [where new = "if state t = IDLE \<or> state t = STOPPED
        then registered (setStateCalls ELECTING t) else []"])
     (auto simp add: inv_def start_eq proj_Cons)

lemma lifecycle_stop: "inv t \<Longrightarrow> lifecycle Call_stop t (stop t)"
  by (rule lifecycle_grown [where new = "if state t = IDLE \<or> state t = STOPPED
        then [] else registered (setStateCalls STOPPED t)"])
     (auto simp add: inv_def stop_eq proj_Cons)

lemma lifecycle_runExclusive: "inv t \<Longrightarrow> lifecycle (Call_runExclusive task) t (runExclusive task t)"
  by (rule lifecycle_grown [where new = "[task]"]) (auto simp add: inv_def runExclusive_eq)

lemma lifecycle_applied:
  "inv t \<Longrightarrow> i \<noteq> BeforeUnload \<Longrightarrow> ranCleanups evs = [] \<Longrightarrow>
   ranTasks evs = (if state t = CHIEF then map task_ref (registered cs) else []) \<Longrightarrow>
   lifecycle i t (applied cs evs t)"
  by (rule lifecycle_grown [where new = "registered cs"]) (simp_all add: inv_def)

lemma lifecycle_postMessage: "inv t \<Longrightarrow> lifecycle (Call_postMessage d) t (step (Call_postMessage d) t)"
  unfolding step_postMessage by (simp add: lifecycle_refl lifecycle_applied proj_Cons)

lemma lifecycle_handleBeforeUnload: "inv t \<Longrightarrow> lifecycle BeforeUnload t (handleBeforeUnload t)"
  by (rule lifecycle_grown [where new = "[]"]) (simp_all add: inv_def handleBeforeUnload_eq)

lemma lifecycle_becomeFollower:
  "inv t \<Longrightarrow> i \<noteq> BeforeUnload \<Longrightarrow> lifecycle i t (becomeFollower c t)"
  by (rule lifecycle_grown [where new = "registered (setStateCalls FOLLOWER t)"])
     (auto simp add: inv_def becomeFollower_eq)

lemma lifecycle_startElection:
  "inv t \<Longrightarrow> state t \<noteq> CHIEF \<Longrightarrow> i \<noteq> BeforeUnload \<Longrightarrow> lifecycle i t (startElection t)"
  by (rule lifecycle_grown [where new = "if electionDebounceTimer t \<noteq> None then []
        else registered (setStateCalls ELECTING t)"])
     (auto simp add: inv_def startElection_eq)

lemma lifecycle_declareVictory:
  "inv t \<Longrightarrow> state t \<noteq> CHIEF \<Longrightarrow> i \<noteq> BeforeUnload \<Longrightarrow> lifecycle i t (declareVictory t)"
  by (rule lifecycle_grown [where new = "registered (setStateCalls CHIEF t)"])
     (auto simp add: inv_def declareVictory_eq)

lemma lifecycle_same_registry:
  "lifecycle i t t' \<Longrightarrow> exclusiveTasks u = exclusiveTasks t \<Longrightarrow> trace u = trace t \<Longrightarrow>
   state u = state t \<Longrightarrow> activeCleanups u = activeCleanups t \<Longrightarrow> lifecycle i u t'"
  by (simp add: lifecycle_def addedTasks_def)

lemma lifecycle_handleMessage:
  assumes "inv t"
  shows "lifecycle (ChannelDelivers m) t (handleMessage m t)"
proof (cases "senderId m = tabId t")
  case True
  then show ?thesis using assms by (simp add: handleMessage_def lifecycle_refl)
next
  case False
  show ?thesis
  proof (cases "msg_type m")
    case HEARTBEAT
    then show ?thesis using assms False
      by (simp add: handleMessage_def handleHeartbeat_eq lifecycle_becomeFollower lifecycle_refl)
  next
    case ELECTION
    have "lifecycle (ChannelDelivers m) t (startElection (broadcast x t))" if "state t \<noteq> CHIEF" for x
    proof -
      have "inv (broadcast x t)" using assms by (simp add: broadcast_eq)
      then have "lifecycle (ChannelDelivers m) (broadcast x t) (startElection (broadcast x t))"
        using that by (intro lifecycle_startElection) (simp_all add: broadcast_eq)
      then show ?thesis
        by (simp add: lifecycle_def addedTasks_def broadcast_eq)
    qed
    moreover have "lifecycle (ChannelDelivers m) t (broadcast x t)" for x
      using assms by (simp add: broadcast_eq lifecycle_trace)
    moreover have "state (broadcast x t) = state t" for x by (simp add: broadcast_eq)
    ultimately show ?thesis using ELECTION assms False
      by (simp add: handleMessage_def handleElectionRequest_def Let_def lifecycle_refl)
  next
    case VICTORY
    have "lifecycle (ChannelDelivers m) t (broadcast x t)" for x
      using assms by (simp add: broadcast_eq lifecycle_trace)
    then show ?thesis using VICTORY assms False
      by (simp add: handleMessage_def handleVictory_def lifecycle_becomeFollower)
  next
    case ALIVE
    have "lifecycle (ChannelDelivers m) t (resetElectionTimeout (setState FOLLOWER (clearElectionTimer t)))"
      if "state t = ELECTING"
      using assms that
      by (intro lifecycle_grown [where new = "registered (setStateCalls FOLLOWER t)"])
         (auto simp add: inv_def resetElectionTimeout_eq setState_eq clearElectionTimer_eq
            setStateCalls_def setStateEvents_def)
    then show ?thesis using ALIVE assms False
      by (simp add: handleMessage_def handleAliveResponse_def lifecycle_refl)
  next
    case DATA
    then show ?thesis using assms False
      by (simp add: handleMessage_def notifyMessageCallbacks_eq lifecycle_applied)
  next
    case SHUTDOWN
    have "lifecycle (ChannelDelivers m) t (startElection (t\<lparr>currentChiefId := None\<rparr>))" if "state t \<noteq> CHIEF"
    proof -
      have "inv (t\<lparr>currentChiefId := None\<rparr>)" using assms that by (auto simp add: inv_def)
      then have "lifecycle (ChannelDelivers m) (t\<lparr>currentChiefId := None\<rparr>)
          (startElection (t\<lparr>currentChiefId := None\<rparr>))"
        using that by (intro lifecycle_startElection) simp_all
      then show ?thesis by (rule lifecycle_same_registry) simp_all
    qed
    moreover have "state t \<noteq> CHIEF" if "Some (senderId m) = currentChiefId t"
      using assms False that by (auto simp add: inv_def)
    ultimately show ?thesis using SHUTDOWN assms False
      by (simp add: handleMessage_def handleShutdown_def lifecycle_refl)
  qed
qed

lemma lifecycle_electionTimerFires:
  assumes i: "inv t"
  shows "lifecycle ElectionTimerFires t (electionTimerFires t)"
proof (cases "electionTimer t")
  case None
  then show ?thesis using i by (simp add: electionTimerFires_def lifecycle_refl)
next
  case (Some x)
  then have s: "state t \<noteq> CHIEF" using i by (auto simp add: inv_def)
  show ?thesis
  proof (cases x)
    case Fired
    then show ?thesis using Some i by (simp add: electionTimerFires_def lifecycle_refl)
  next
    case (Pending callback delay)
    show ?thesis
    proof (cases callback)
      case CallDeclareVictory
      then show ?thesis using Some Pending i s
        by (simp add: electionTimerFires_eq lifecycle_declareVictory)
    next
      case ChiefSeemsDead
      have "lifecycle ElectionTimerFires t (t\<lparr>electionTimer := Some Fired, currentChiefId := None\<rparr>)"
        using i s by (intro lifecycle_grown [where new = "[]"]) (simp_all add: inv_def)
      moreover have "lifecycle ElectionTimerFires t (startElection (t\<lparr>currentChiefId := None\<rparr>))"
      proof -
        have "inv (t\<lparr>currentChiefId := None\<rparr>)" using i s by (auto simp add: inv_def)
        then have "lifecycle ElectionTimerFires (t\<lparr>currentChiefId := None\<rparr>)
            (startElection (t\<lparr>currentChiefId := None\<rparr>))"
          using s by (intro lifecycle_startElection) simp_all
        then show ?thesis by (rule lifecycle_same_registry) simp_all
      qed
      ultimately show ?thesis using Some Pending ChiefSeemsDead
        by (simp add: electionTimerFires_eq)
    qed
  qed
qed

lemma lifecycle_subscription:
  "inv t \<Longrightarrow> i \<noteq> BeforeUnload \<Longrightarrow> exclusiveTasks t' = exclusiveTasks t \<Longrightarrow>
   trace t' = trace t \<Longrightarrow> state t' = state t \<Longrightarrow> activeCleanups t' = activeCleanups t \<Longrightarrow>
   lifecycle i t t'"
  by (rule lifecycle_grown [where new = "[]"]) (simp_all add: inv_def)

lemma lifecycle_step: "inv t \<Longrightarrow> lifecycle i t (step i t)"
proof (cases i)
  case (Call_postMessage d)
  assume "inv t"
  then show ?thesis unfolding Call_postMessage by (rule lifecycle_postMessage)
next
  case ElectionDebounceTimerFires
  assume "inv t"
  then show ?thesis using ElectionDebounceTimerFires
    by (intro lifecycle_subscription) (simp_all add: electionDebounceTimerFires_def)
next
  case HeartbeatTimerFires
  assume "inv t"
  then show ?thesis using HeartbeatTimerFires
    by (simp add: heartbeatTimerFires_def sendHeartbeat_eq lifecycle_trace lifecycle_refl)
next
  case (ClockReads now)
  assume "inv t"
  then show ?thesis using ClockReads by (intro lifecycle_subscription) simp_all
next
  case BeforeUnload
  assume i: "inv t"
  have "lifecycle BeforeUnload t t" if "\<not> boundBeforeUnload t"
    using i that by (intro lifecycle_grown [where new = "[]"]) (auto simp add: inv_def)
  then show ?thesis using BeforeUnload i by (simp add: lifecycle_handleBeforeUnload)
qed (simp_all add: lifecycle_start lifecycle_stop lifecycle_runExclusive
      lifecycle_handleMessage lifecycle_electionTimerFires lifecycle_refl,
     (rule lifecycle_subscription,
      simp_all add: onMessage_def offMessage_def onStateChange_def offStateChange_def
      onBecomeChief_def offBecomeChief_def onBecomeFollower_def offBecomeFollower_def)+)

text \<open>The tasks that a step registers when no subscriber calls back into the instance.\<close>

lemma exclusiveTasks_handleMessage_inert:
  "inert t \<Longrightarrow> exclusiveTasks (handleMessage m t) = exclusiveTasks t"
  by (simp add: handleMessage_def handleHeartbeat_eq handleElectionRequest_def handleVictory_def
        handleAliveResponse_def handleShutdown_def becomeFollower_eq startElection_eq
        broadcast_eq setState_eq resetElectionTimeout_eq clearElectionTimer_eq
        notifyMessageCallbacks_eq Let_def setStateCalls_def inert_def calls_inert visited_inert
      split: MessageType.splits)

lemma addedTasks_inert:
  assumes "inert t"
  shows "addedTasks t (step i t) = (case i of Call_runExclusive task \<Rightarrow> [task] | _ \<Rightarrow> [])"
proof (cases i)
  case (Call_postMessage d)
  have "registered (concat (map mcb_calls (visited 0 (messageCallbacks t)))) = []"
    using assms by (simp add: inert_def visited_inert calls_inert)
  then show ?thesis unfolding Call_postMessage step_postMessage
    by (simp add: addedTasks_def)
next
  case (ChannelDelivers m)
  then show ?thesis using assms
    by (simp add: addedTasks_def exclusiveTasks_handleMessage_inert)
next
  case ElectionTimerFires
  then show ?thesis using assms
    by (simp add: addedTasks_def electionTimerFires_eq declareVictory_eq startElection_eq
          setStateCalls_def inert_def calls_inert
        split: option.splits timer.splits timer_callback.splits)
qed (simp_all add: addedTasks_def start_eq stop_eq runExclusive_eq assms
      onMessage_def offMessage_def onStateChange_def offStateChange_def
      onBecomeChief_def offBecomeChief_def onBecomeFollower_def offBecomeFollower_def
      electionDebounceTimerFires_def heartbeatTimerFires_def sendHeartbeat_eq
      handleBeforeUnload_eq)

section \<open>Observers along the steps of a run\<close>

lemma observed_refl: "observed t t"
  by (simp add: observed_def cong: conj_cong)

lemma observed_trace:
  "stateChangeCalls evs = [] \<Longrightarrow> becomeChiefCalls evs = [] \<Longrightarrow> becomeFollowerCalls evs = [] \<Longrightarrow>
   observed t (t\<lparr>trace := trace t @ evs\<rparr>)"
  by (simp add: observed_def cong: conj_cong)

lemma observed_applied:
  "stateChangeCalls evs = [] \<Longrightarrow> becomeChiefCalls evs = [] \<Longrightarrow> becomeFollowerCalls evs = [] \<Longrightarrow>
   observed t (applied cs evs t)"
  by (simp add: observed_def cong: conj_cong)

lemma observed_start: "observed t (start t)"
  by (simp add: observed_def start_eq proj_Cons proj_setStateEvents_observers cong: conj_cong)

lemma observed_stop: "observed t (stop t)"
  by (simp add: observed_def stop_eq proj_Cons proj_setStateEvents_observers cong: conj_cong)

lemma observed_startElection: "observed t (startElection t)"
  by (simp add: observed_def startElection_eq proj_setStateEvents_observers cong: conj_cong)

lemma observed_becomeFollower: "observed t (becomeFollower c t)"
  by (simp add: observed_def becomeFollower_eq proj_setStateEvents_observers cong: conj_cong)

lemma observed_declareVictory: "observed t (declareVictory t)"
  by (simp add: observed_def declareVictory_eq proj_setStateEvents_observers cong: conj_cong)

lemma observed_handleMessage: "observed t (handleMessage m t)"
proof (cases "senderId m = tabId t")
  case True
  then show ?thesis by (simp add: handleMessage_def observed_refl)
next
  case False
  show ?thesis
  proof (cases "msg_type m")
    case HEARTBEAT
    then show ?thesis using False
      by (simp add: handleMessage_def handleHeartbeat_eq observed_becomeFollower observed_refl)
  next
    case ELECTION
    have "observed t (startElection (broadcast x t))" for x
      by (simp add: observed_def startElection_eq broadcast_eq proj_setStateEvents_observers
            setStateEvents_def setStateCalls_def cong: conj_cong)
    moreover have "observed t (broadcast x t)" for x
      by (simp add: broadcast_eq observed_trace)
    ultimately show ?thesis using ELECTION False
      by (simp add: handleMessage_def handleElectionRequest_def Let_def observed_refl)
  next
    case VICTORY
    have "observed t (broadcast x t)" for x
      by (simp add: broadcast_eq observed_trace)
    then show ?thesis using VICTORY False
      by (simp add: handleMessage_def handleVictory_def observed_becomeFollower)
  next
    case ALIVE
    have "observed t (resetElectionTimeout (setState FOLLOWER (clearElectionTimer t)))"
      by (simp add: observed_def resetElectionTimeout_eq setState_eq clearElectionTimer_eq
            proj_setStateEvents_observers setStateEvents_def setStateCalls_def applied_def
            cong: conj_cong)
    then show ?thesis using ALIVE False
      by (simp add: handleMessage_def handleAliveResponse_def observed_refl)
  next
    case DATA
    then show ?thesis using False
      by (simp add: handleMessage_def notifyMessageCallbacks_eq observed_applied)
  next
    case SHUTDOWN
    have "observed t (startElection (t\<lparr>currentChiefId := None\<rparr>))"
      by (simp add: observed_def startElection_eq proj_setStateEvents_observers
            setStateEvents_def setStateCalls_def cong: conj_cong)
    then show ?thesis using SHUTDOWN False
      by (simp add: handleMessage_def handleShutdown_def observed_refl)
  qed
qed

lemma observed_startElection_cleared:
  "observed t (startElection (t\<lparr>currentChiefId := None\<rparr>))"
  by (simp add: observed_def startElection_eq proj_setStateEvents_observers
        setStateEvents_def setStateCalls_def cong: conj_cong)

lemma observed_electionTimerFires: "observed t (electionTimerFires t)"
proof (cases "electionTimer t")
  case None
  then show ?thesis by (simp add: electionTimerFires_def observed_refl)
next
  case (Some x)
  show ?thesis
  proof (cases x)
    case Fired
    then show ?thesis using Some by (simp add: electionTimerFires_def observed_refl)
  next
    case (Pending callback delay)
    show ?thesis
    proof (cases callback)
      case CallDeclareVictory
      then show ?thesis using Some Pending
        by (simp add: electionTimerFires_eq observed_declareVictory)
    next
      case ChiefSeemsDead
      have "observed t (t\<lparr>electionTimer := Some Fired, currentChiefId := None\<rparr>)"
        by (simp add: observed_def cong: conj_cong)
      then show ?thesis using Some Pending ChiefSeemsDead
        by (simp add: electionTimerFires_eq observed_startElection_cleared)
    qed
  qed
qed

lemma observed_step: "observed t (step i t)"
proof (cases i)
  case (Call_runExclusive task)
  then show ?thesis by (simp add: runExclusive_eq observed_def cong: conj_cong)
next
  case (Call_postMessage d)
  show ?thesis unfolding Call_postMessage step_postMessage
    by (simp add: observed_refl observed_applied proj_Cons)
next
  case BeforeUnload
  then show ?thesis
    by (simp add: handleBeforeUnload_eq observed_def proj_Cons cong: conj_cong)
next
  case ElectionDebounceTimerFires
  then show ?thesis
    by (simp add: observed_def electionDebounceTimerFires_def cong: conj_cong)
next
  case HeartbeatTimerFires
  then show ?thesis
    by (simp add: heartbeatTimerFires_def sendHeartbeat_eq observed_trace observed_refl)
next
  case (ClockReads now)
  then show ?thesis by (simp add: observed_def cong: conj_cong)
qed (simp_all add: observed_start observed_stop observed_handleMessage
      observed_electionTimerFires observed_refl,
     simp_all add: observed_def onMessage_def offMessage_def onStateChange_def offStateChange_def
      onBecomeChief_def offBecomeChief_def onBecomeFollower_def offBecomeFollower_def
      cong: conj_cong)

section \<open>The example instances, evaluated\<close>

lemma run_Nil [simp]: "run [] t = t"
  by (simp add: run_def)

lemma run_Cons [simp]: "run (i # inputs) t = run inputs (step i t)"
  by (simp add: run_def)

lemma reachable_run: "reachable t \<Longrightarrow> reachable (run inputs t)"
  by (induction inputs arbitrary: t) (simp_all add: reachable_step)

lemma example_reachable:
  "reachable exampleNew" "reachable exampleElecting" "reachable exampleChief"
  "reachable exampleFollower" "reachable exampleSubscribedChief"
  "reachable exampleRegisteringElecting"
  by (simp_all only: exampleNew_def exampleElecting_def exampleChief_def exampleFollower_def
        exampleSubscribedChief_def exampleRegisteringElecting_def reachable_run reachable_new)

lemma exampleNew_eq:
  "exampleNew =
     \<lparr> tabId = ''a'', channelName = ''tab-chief-default'', heartbeatInterval = 1000,
       electionTimeout = 3000, creationTimestamp = 100, channel = None, state = IDLE,
       currentChiefId = None, heartbeatTimer = None, electionTimer = None,
       electionDebounceTimer = None, exclusiveTasks = [], activeCleanups = [],
       messageCallbacks = [], stateChangeCallbacks = [], becomeChiefCallbacks = [],
       becomeFollowerCallbacks = [], boundBeforeUnload = False, clock = 100, trace = [] \<rparr>"
  by (simp add: exampleNew_def TabChief_new_def DEFAULT_CHANNEL_NAME_def
        DEFAULT_HEARTBEAT_INTERVAL_def DEFAULT_ELECTION_TIMEOUT_def)

lemma exampleElecting_eq:
  "exampleElecting =
     \<lparr> tabId = ''a'', channelName = ''tab-chief-default'', heartbeatInterval = 1000,
       electionTimeout = 3000, creationTimestamp = 100,
       channel = Some ''tab-chief-default'', state = ELECTING,
       currentChiefId = None, heartbeatTimer = None,
       electionTimer = Some (Pending CallDeclareVictory 3000),
       electionDebounceTimer = Some 100, exclusiveTasks = [exampleTask], activeCleanups = [],
       messageCallbacks = [exampleMessageCallback],
       stateChangeCallbacks = [exampleStateChangeCallback],
       becomeChiefCallbacks = [exampleBecomeChiefCallback],
       becomeFollowerCallbacks = [exampleBecomeFollowerCallback],
       boundBeforeUnload = True, clock = 100,
       trace = [ChannelOpened ''tab-chief-default'', AddedBeforeUnloadListener,
                CalledStateChangeCallback 3 ELECTING IDLE,
                ChannelPostMessage (BaseMessage ELECTION ''a'' 100)] \<rparr>"
  by (simp add: exampleElecting_def exampleNew_eq runExclusive_eq onMessage_def onStateChange_def
        onBecomeChief_def onBecomeFollower_def start_eq setStateEvents_def stateChangeEvents_def
        setStateCalls_def observerCall_def exampleStateChangeCallback_def
        ELECTION_DEBOUNCE_TIME_def)

lemma exampleChief_eq:
  "exampleChief =
     \<lparr> tabId = ''a'', channelName = ''tab-chief-default'', heartbeatInterval = 1000,
       electionTimeout = 3000, creationTimestamp = 100,
       channel = Some ''tab-chief-default'', state = CHIEF,
       currentChiefId = Some ''a'', heartbeatTimer = Some 1000,
       electionTimer = None,
       electionDebounceTimer = Some 100, exclusiveTasks = [exampleTask],
       activeCleanups = [exampleCleanup],
       messageCallbacks = [exampleMessageCallback],
       stateChangeCallbacks = [exampleStateChangeCallback],
       becomeChiefCallbacks = [exampleBecomeChiefCallback],
       becomeFollowerCallbacks = [exampleBecomeFollowerCallback],
       boundBeforeUnload = True, clock = 3500,
       trace = [ChannelOpened ''tab-chief-default'', AddedBeforeUnloadListener,
                CalledStateChangeCallback 3 ELECTING IDLE,
                ChannelPostMessage (BaseMessage ELECTION ''a'' 100),
                CalledStateChangeCallback 3 CHIEF ELECTING,
                CalledBecomeChiefCallback 4,
                ChannelPostMessage (BaseMessage VICTORY ''a'' 3100),
                ChannelPostMessage (BaseMessage HEARTBEAT ''a'' 3100),
                RanTask 1] \<rparr>"
  by (simp add: exampleChief_def exampleElecting_eq electionTimerFires_eq declareVictory_eq
        setStateEvents_def stateChangeEvents_def becomeChiefEvents_def sendEvents_def
        setStateCalls_def observerCall_def taskEvents_def returnedCleanups_def
        guardedCall_def exampleStateChangeCallback_def exampleBecomeChiefCallback_def
        exampleTask_def)

lemma exampleFollower_eq:
  "exampleFollower =
     \<lparr> tabId = ''a'', channelName = ''tab-chief-default'', heartbeatInterval = 1000,
       electionTimeout = 3000, creationTimestamp = 100,
       channel = Some ''tab-chief-default'', state = FOLLOWER,
       currentChiefId = Some ''b'', heartbeatTimer = None,
       electionTimer = Some (Pending ChiefSeemsDead 3000),
       electionDebounceTimer = Some 100, exclusiveTasks = [exampleTask], activeCleanups = [],
       messageCallbacks = [exampleMessageCallback],
       stateChangeCallbacks = [exampleStateChangeCallback],
       becomeChiefCallbacks = [exampleBecomeChiefCallback],
       becomeFollowerCallbacks = [exampleBecomeFollowerCallback],
       boundBeforeUnload = True, clock = 150,
       trace = [ChannelOpened ''tab-chief-default'', AddedBeforeUnloadListener,
                CalledStateChangeCallback 3 ELECTING IDLE,
                ChannelPostMessage (BaseMessage ELECTION ''a'' 100),
                CalledStateChangeCallback 3 FOLLOWER ELECTING] \<rparr>"
  by (simp add: exampleFollower_def exampleElecting_eq handleMessage_def BaseMessage_def
        handleHeartbeat_eq becomeFollower_eq
        setStateEvents_def stateChangeEvents_def setStateCalls_def observerCall_def
        exampleStateChangeCallback_def)

lemma example_fields:
  "state exampleChief = CHIEF" "tabId exampleChief = ''a''" "clock exampleChief = 3500"
  "creationTimestamp exampleChief = 100" "channel exampleChief = Some ''tab-chief-default''"
  "sentMessages (trace exampleChief) =
     [BaseMessage ELECTION ''a'' 100, BaseMessage VICTORY ''a'' 3100,
      BaseMessage HEARTBEAT ''a'' 3100]"
  "state exampleElecting = ELECTING" "tabId exampleElecting = ''a''"
  "clock exampleElecting = 100" "creationTimestamp exampleElecting = 100"
  "channel exampleElecting = Some ''tab-chief-default''"
  "currentChiefId exampleElecting = None" "electionTimeout exampleElecting = 3000"
  "electionDebounceTimer exampleElecting = Some 100"
  "sentMessages (trace exampleElecting) = [BaseMessage ELECTION ''a'' 100]"
  "state exampleFollower = FOLLOWER" "tabId exampleFollower = ''a''"
  "clock exampleFollower = 150" "creationTimestamp exampleFollower = 100"
  "channel exampleFollower = Some ''tab-chief-default''"
  "currentChiefId exampleFollower = Some ''b''" "electionTimeout exampleFollower = 3000"
  "electionDebounceTimer exampleFollower = Some 100"
  "electionTimer exampleFollower = Some (Pending ChiefSeemsDead 3000)"
  "sentMessages (trace exampleFollower) = [BaseMessage ELECTION ''a'' 100]"
  by (simp_all add: exampleChief_eq exampleElecting_eq exampleFollower_eq proj_Cons)

lemma exampleRegisteringElecting_eq:
  "exampleRegisteringElecting =
     exampleElecting\<lparr>becomeChiefCallbacks :=
       [exampleBecomeChiefCallback, exampleRegisteringCallback]\<rparr>"
  by (simp add: exampleRegisteringElecting_def onBecomeChief_def exampleElecting_eq)

lemma example_inert:
  "inert exampleNew" "inert exampleElecting" "inert exampleChief" "inert exampleFollower"
  by (simp_all add: inert_def exampleNew_eq exampleElecting_eq exampleChief_eq exampleFollower_eq
        exampleMessageCallback_def exampleStateChangeCallback_def exampleBecomeChiefCallback_def
        exampleBecomeFollowerCallback_def)

lemma BaseMessage_fields [simp]:
  "msg_type (BaseMessage ty sender ts) = ty" "senderId (BaseMessage ty sender ts) = sender"
  "timestamp (BaseMessage ty sender ts) = ts" "payload (BaseMessage ty sender ts) = Undefined"
  by (simp_all add: BaseMessage_def)

section \<open>Two chiefs never yield to each other\<close>

lemma netRun_append: "netRun (xs @ ys) net = netRun ys (netRun xs net)"
  by (simp add: netRun_def)

lemma chief_never_yields:
  assumes "chiefUnchallenged t" "senderId m \<noteq> tabId t"
  shows "handleMessage m t = t\<lparr>trace := trace t @ chiefReply m t\<rparr>"
proof -
  have ny: "\<not> shouldYieldTo t s (clock t)" for s
    using assms(1) by (simp add: chiefUnchallenged_def shouldYieldTo_def)
  show ?thesis
  proof (cases "msg_type m")
    case HEARTBEAT
    then show ?thesis using assms ny
      by (simp add: handleMessage_def handleHeartbeat_eq chiefReply_def chiefUnchallenged_def)
  next
    case ELECTION
    then show ?thesis using assms
      by (simp add: handleMessage_def handleElectionRequest_def Let_def chiefReply_def
            chiefUnchallenged_def broadcast_eq sendEvents_def)
  next
    case VICTORY
    then show ?thesis using assms ny
      by (simp add: handleMessage_def handleVictory_def chiefReply_def chiefUnchallenged_def
            broadcast_eq sendEvents_def)
  next
    case ALIVE
    then show ?thesis using assms
      by (simp add: handleMessage_def handleAliveResponse_def chiefReply_def
            chiefUnchallenged_def)
  next
    case DATA
    then show ?thesis using assms
      by (simp add: handleMessage_def notifyMessageCallbacks_eq chiefReply_def
            chiefUnchallenged_def messageCallbackEvents_def)
  next
    case SHUTDOWN
    then show ?thesis using assms
      by (auto simp add: handleMessage_def handleShutdown_def chiefReply_def
            chiefUnchallenged_def)
  qed
qed

lemma chiefUnchallenged_trace [simp]:
  "chiefUnchallenged (t\<lparr>trace := evs\<rparr>) = chiefUnchallenged t"
  by (simp add: chiefUnchallenged_def)

lemma sent_chiefReply:
  "sentMessages (chiefReply m t) =
     (case msg_type m of
        VICTORY \<Rightarrow> [BaseMessage VICTORY (tabId t) (clock t)]
      | ELECTION \<Rightarrow>
          (if shouldYieldTo t (senderId m) (timestamp m) then []
           else [BaseMessage ALIVE (tabId t) (creationTimestamp t)])
      | _ \<Rightarrow> [])"
  by (simp add: chiefReply_def proj_Cons split: MessageType.splits)

lemma posted_appended [simp]: "posted t (t\<lparr>trace := trace t @ evs\<rparr>) = sentMessages evs"
  by (simp add: posted_def)

lemma storm_peerStep0:
  assumes "peers net = [a, b]" "chiefUnchallenged a" "chiefUnchallenged b"
    "channelName a = channelName b" "senderId m = tabId b" "tabId a \<noteq> tabId b"
  shows "peerStep 0 (ChannelDelivers m) net =
     net\<lparr>peers := [a\<lparr>trace := trace a @ chiefReply m a\<rparr>, b],
         inflight := inflight net @ map (\<lambda>m'. (Suc 0, m')) (sentMessages (chiefReply m a))\<rparr>"
proof -
  have "recipients 0 net = [Suc 0]"
    using assms by (simp add: recipients_def chiefUnchallenged_def upt_rec)
  moreover have "step (ChannelDelivers m) a = a\<lparr>trace := trace a @ chiefReply m a\<rparr>"
    using assms chief_never_yields [of a m] by (simp add: chiefUnchallenged_def)
  ultimately show ?thesis
    using assms(1) by (simp add: peerStep_def Let_def comp_def)
qed

lemma storm_peerStep1:
  assumes "peers net = [a, b]" "chiefUnchallenged a" "chiefUnchallenged b"
    "channelName a = channelName b" "senderId m = tabId a" "tabId a \<noteq> tabId b"
  shows "peerStep (Suc 0) (ChannelDelivers m) net =
     net\<lparr>peers := [a, b\<lparr>trace := trace b @ chiefReply m b\<rparr>],
         inflight := inflight net @ map (\<lambda>m'. (0, m')) (sentMessages (chiefReply m b))\<rparr>"
proof -
  have "recipients (Suc 0) net = [0]"
    using assms by (simp add: recipients_def chiefUnchallenged_def upt_rec)
  moreover have "step (ChannelDelivers m) b = b\<lparr>trace := trace b @ chiefReply m b\<rparr>"
    using assms chief_never_yields [of b m] by (simp add: chiefUnchallenged_def)
  ultimately show ?thesis
    using assms(1) by (simp add: peerStep_def Let_def comp_def)
qed

lemma set_remove_nth_subset: "set (take n xs @ drop (Suc n) xs) \<subseteq> set xs"
  using set_take_subset [of n xs] set_drop_subset [of "Suc n" xs] by auto

lemma in_set_remove_nth:
  assumes "x \<in> set xs" "n < length xs" "x \<noteq> xs ! n"
  shows "x \<in> set (take n xs @ drop (Suc n) xs)"
proof -
  have "x \<in> set (take n xs @ xs ! n # drop (Suc n) xs)"
    using assms(1) by (simp only: id_take_nth_drop [OF assms(2), symmetric])
  then show ?thesis using assms(3) by auto
qed

lemma sender_chiefReply:
  "m' \<in> set (sentMessages (chiefReply m t)) \<Longrightarrow> senderId m' = tabId t"
  by (auto simp add: sent_chiefReply split: MessageType.splits if_splits)

lemma victory_chiefReply:
  "msg_type m = VICTORY \<Longrightarrow>
   sentMessages (chiefReply m t) = [BaseMessage VICTORY (tabId t) (clock t)]"
  by (simp add: sent_chiefReply)

lemma storm_deliver:
  assumes "storm net"
  shows "storm (deliver n net)"
proof (cases "n < length (inflight net)")
  case False
  then show ?thesis using assms by (simp add: deliver_def)
next
  case True
  from assms obtain a b where ab: "peers net = [a, b]" "chiefUnchallenged a"
      "chiefUnchallenged b" "tabId a \<noteq> tabId b" "channelName a = channelName b"
    and fl: "\<forall>x \<in> set (inflight net).
              (fst x = 0 \<and> senderId (snd x) = tabId b)
              \<or> (fst x = Suc 0 \<and> senderId (snd x) = tabId a)"
    and vic: "VICTORY \<in> (msg_type \<circ> snd) ` set (inflight net)"
    unfolding storm_def by blast
  define j where "j = fst (inflight net ! n)"
  define m where "m = snd (inflight net ! n)"
  define rest where "rest = take n (inflight net) @ drop (Suc n) (inflight net)"
  define net1 where "net1 = net\<lparr>inflight := rest\<rparr>"
  have "inflight net ! n \<in> set (inflight net)"
    using True by simp
  then have jm: "(j = 0 \<and> senderId m = tabId b) \<or> (j = Suc 0 \<and> senderId m = tabId a)"
    using fl unfolding j_def m_def by blast
  have d: "deliver n net = peerStep j (ChannelDelivers m) net1"
    using True by (simp add: deliver_def j_def m_def net1_def rest_def)
  have rest_sub: "set rest \<subseteq> set (inflight net)"
    unfolding rest_def by (rule set_remove_nth_subset)
  have rest_ok: "(fst x = 0 \<and> senderId (snd x) = tabId b)
              \<or> (fst x = Suc 0 \<and> senderId (snd x) = tabId a)" if "x \<in> set rest" for x
    using that rest_sub fl by blast
  have p1: "peers net1 = [a, b]" "inflight net1 = rest"
    using ab(1) by (simp_all add: net1_def)
  have keep: "VICTORY \<in> (msg_type \<circ> snd) ` set rest" if "msg_type m \<noteq> VICTORY"
  proof -
    from vic obtain x where x: "x \<in> set (inflight net)" "msg_type (snd x) = VICTORY" by auto
    then have "x \<noteq> inflight net ! n" using that by (auto simp add: m_def)
    then have "x \<in> set rest"
      unfolding rest_def using x(1) True by (rule in_set_remove_nth [rotated 2])
    then show ?thesis using x(2) by force
  qed
  from jm show ?thesis
  proof
    assume "j = 0 \<and> senderId m = tabId b"
    then have j0: "j = 0" and s: "senderId m = tabId b" by simp_all
    define a' where "a' = a\<lparr>trace := trace a @ chiefReply m a\<rparr>"
    define new where "new = map (\<lambda>m'. (Suc 0, m')) (sentMessages (chiefReply m a))"
    have e: "deliver n net = net1\<lparr>peers := [a', b], inflight := rest @ new\<rparr>"
      using storm_peerStep0 [OF p1(1) ab(2) ab(3) ab(5) s ab(4)] d j0 p1(2)
      by (simp add: a'_def new_def)
    have a': "chiefUnchallenged a'" "tabId a' = tabId a" "channelName a' = channelName a"
      using ab(2) by (simp_all add: a'_def)
    have new_ok: "fst x = Suc 0 \<and> senderId (snd x) = tabId a" if "x \<in> set new" for x
      using that sender_chiefReply [of _ m a] by (auto simp add: new_def)
    have B: "\<forall>x \<in> set (rest @ new).
              (fst x = 0 \<and> senderId (snd x) = tabId b)
              \<or> (fst x = Suc 0 \<and> senderId (snd x) = tabId a')"
      using rest_ok new_ok a'(2) by auto
    have C: "VICTORY \<in> (msg_type \<circ> snd) ` set (rest @ new)"
    proof (cases "msg_type m = VICTORY")
      case True
      then show ?thesis by (simp add: new_def victory_chiefReply)
    next
      case False
      then show ?thesis using keep by auto
    qed
    have "peers (deliver n net) = [a', b]" "inflight (deliver n net) = rest @ new"
      by (simp_all add: e)
    then show ?thesis
      unfolding storm_def using a' ab(3) ab(4) ab(5) B C by auto
  next
    assume "j = Suc 0 \<and> senderId m = tabId a"
    then have j1: "j = Suc 0" and s: "senderId m = tabId a" by simp_all
    define b' where "b' = b\<lparr>trace := trace b @ chiefReply m b\<rparr>"
    define new where "new = map (\<lambda>m'. (0::nat, m')) (sentMessages (chiefReply m b))"
    have e: "deliver n net = net1\<lparr>peers := [a, b'], inflight := rest @ new\<rparr>"
      using storm_peerStep1 [OF p1(1) ab(2) ab(3) ab(5) s ab(4)] d j1 p1(2)
      by (simp add: b'_def new_def)
    have b': "chiefUnchallenged b'" "tabId b' = tabId b" "channelName b' = channelName b"
      using ab(3) by (simp_all add: b'_def)
    have new_ok: "fst x = 0 \<and> senderId (snd x) = tabId b" if "x \<in> set new" for x
      using that sender_chiefReply [of _ m b] by (auto simp add: new_def)
    have B: "\<forall>x \<in> set (rest @ new).
              (fst x = 0 \<and> senderId (snd x) = tabId b')
              \<or> (fst x = Suc 0 \<and> senderId (snd x) = tabId a)"
      using rest_ok new_ok b'(2) by auto
    have C: "VICTORY \<in> (msg_type \<circ> snd) ` set (rest @ new)"
    proof (cases "msg_type m = VICTORY")
      case True
      then show ?thesis by (simp add: new_def victory_chiefReply)
    next
      case False
      then show ?thesis using keep by auto
    qed
    have "peers (deliver n net) = [a, b']" "inflight (deliver n net) = rest @ new"
      by (simp_all add: e)
    then show ?thesis
      unfolding storm_def using b' ab(2) ab(4) ab(5) B C by auto
  qed
qed

lemma storm_deliveries: "storm net \<Longrightarrow> storm (netRun (map Deliver ns) net)"
  by (induction ns arbitrary: net) (simp_all add: netRun_def storm_deliver)

lemma new_fields:
  "tabId (TabChief_new i now None) = i"
  "channelName (TabChief_new i now None) = ''tab-chief-default''"
  "creationTimestamp (TabChief_new i now None) = now"
  "state (TabChief_new i now None) = IDLE"
  "channel (TabChief_new i now None) = None"
  "electionDebounceTimer (TabChief_new i now None) = None"
  "electionTimer (TabChief_new i now None) = None"
  "electionTimeout (TabChief_new i now None) = 3000"
  "heartbeatInterval (TabChief_new i now None) = 1000"
  "trace (TabChief_new i now None) = []"
  "stateChangeCallbacks (TabChief_new i now None) = []"
  "becomeChiefCallbacks (TabChief_new i now None) = []"
  "exclusiveTasks (TabChief_new i now None) = []"
  "messageCallbacks (TabChief_new i now None) = []"
  by (simp_all add: TabChief_new_def DEFAULT_CHANNEL_NAME_def DEFAULT_ELECTION_TIMEOUT_def
        DEFAULT_HEARTBEAT_INTERVAL_def)

lemma started_fields:
  "tabId (started i now) = i"
  "channelName (started i now) = ''tab-chief-default''"
  "creationTimestamp (started i now) = now"
  "state (started i now) = ELECTING"
  "channel (started i now) = Some ''tab-chief-default''"
  "electionTimer (started i now) = Some (Pending CallDeclareVictory 3000)"
  "heartbeatInterval (started i now) = 1000"
  "stateChangeCallbacks (started i now) = []"
  "becomeChiefCallbacks (started i now) = []"
  "exclusiveTasks (started i now) = []"
  "messageCallbacks (started i now) = []"
  "trace (started i now) =
     [ChannelOpened ''tab-chief-default'', AddedBeforeUnloadListener,
      ChannelPostMessage (BaseMessage ELECTION i now)]"
  by (simp_all add: started_def new_fields start_eq setStateEvents_def stateChangeEvents_def
        setStateCalls_def)

lemma won_fields:
  "tabId (won i now) = i"
  "channelName (won i now) = ''tab-chief-default''"
  "creationTimestamp (won i now) = now"
  "state (won i now) = CHIEF"
  "currentChiefId (won i now) = Some i"
  "channel (won i now) = Some ''tab-chief-default''"
  "clock (won i now) = 3200"
  "messageCallbacks (won i now) = []"
  "trace (won i now) = trace (step (ClockReads 3200) (started i now)) @
     [ChannelPostMessage (BaseMessage VICTORY i 3200),
      ChannelPostMessage (BaseMessage HEARTBEAT i 3200)]"
  by (simp_all add: won_def started_fields electionTimerFires_eq declareVictory_eq
       setStateEvents_def stateChangeEvents_def becomeChiefEvents_def sendEvents_def
       setStateCalls_def taskEvents_def)

lemma setup_eval:
  "netRun bothDeclareVictory twoPeers =
     \<lparr> peers = [step (ClockReads 3300) (won ''a'' 100), step (ClockReads 3300) (won ''b'' 200)],
       inflight = [(0, BaseMessage ELECTION ''b'' 200),
                   (Suc 0, BaseMessage VICTORY ''a'' 3200),
                   (Suc 0, BaseMessage HEARTBEAT ''a'' 3200),
                   (0, BaseMessage VICTORY ''b'' 3200),
                   (0, BaseMessage HEARTBEAT ''b'' 3200)] \<rparr>"
proof -
  have 1: "netRun [Tick 200, Peer 0 Call_start, Peer 1 Call_start] twoPeers =
      \<lparr> peers = [started ''a'' 100, started ''b'' 200],
        inflight = [(0, BaseMessage ELECTION ''b'' 200)] \<rparr>"
    by (simp add: netRun_def twoPeers_def tick_def peerStep_def Let_def recipients_def
          posted_def new_fields upt_rec start_eq setStateEvents_def stateChangeEvents_def
          setStateCalls_def proj_Cons started_def)
  have 2: "netRun [Tick 3200, Peer 0 ElectionTimerFires, Peer 1 ElectionTimerFires, Tick 3300]
        \<lparr> peers = [started ''a'' 100, started ''b'' 200],
          inflight = [(0, BaseMessage ELECTION ''b'' 200)] \<rparr> =
     \<lparr> peers = [step (ClockReads 3300) (won ''a'' 100), step (ClockReads 3300) (won ''b'' 200)],
       inflight = [(0, BaseMessage ELECTION ''b'' 200),
                   (Suc 0, BaseMessage VICTORY ''a'' 3200),
                   (Suc 0, BaseMessage HEARTBEAT ''a'' 3200),
                   (0, BaseMessage VICTORY ''b'' 3200),
                   (0, BaseMessage HEARTBEAT ''b'' 3200)] \<rparr>"
    by (simp add: netRun_def tick_def peerStep_def Let_def recipients_def
          posted_def started_fields upt_rec electionTimerFires_eq declareVictory_eq
          setStateEvents_def stateChangeEvents_def becomeChiefEvents_def sendEvents_def
          setStateCalls_def taskEvents_def proj_Cons won_def)
  have split: "bothDeclareVictory = [Tick 200, Peer 0 Call_start, Peer 1 Call_start] @
      [Tick 3200, Peer 0 ElectionTimerFires, Peer 1 ElectionTimerFires, Tick 3300]"
    by (simp add: bothDeclareVictory_def)
  show ?thesis
    by (simp only: split netRun_append 1 2)
qed

lemma setup_storm: "storm (netRun bothDeclareVictory twoPeers)"
proof -
  have "chiefUnchallenged (step (ClockReads 3300) (won i now))" if "now < 3300" for i now
    using that by (simp add: chiefUnchallenged_def won_fields)
  then show ?thesis
    unfolding setup_eval storm_def
    by (simp add: won_fields)
qed

section \<open>Properties\<close>

subsection \<open>The tie-break rule\<close>

text \<open>
  C4. For every pair of inputs, \<open>shouldYieldTo\<close> holds exactly when the other timestamp is
  strictly smaller than the instance's creation timestamp, or the timestamps are equal
  and the other id is lexicographically smaller than the instance's id. Consequently, of
  two peers with distinct ids exactly one yields to the other; the order "yields to" is
  also irreflexive and transitive, so it is a strict total order on peers with distinct ids.
\<close>

theorem shouldYieldTo_strict_total_order:
  "(shouldYieldTo t otherId otherTimestamp \<longleftrightarrow>
      (otherTimestamp < creationTimestamp t \<or>
       (otherTimestamp = creationTimestamp t \<and> otherId < tabId t)))
   \<and> (tabId a \<noteq> tabId b \<longrightarrow>
        (shouldYieldTo a (tabId b) (creationTimestamp b) \<longleftrightarrow>
         \<not> shouldYieldTo b (tabId a) (creationTimestamp a)))
   \<and> \<not> shouldYieldTo a (tabId a) (creationTimestamp a)
   \<and> (shouldYieldTo a (tabId b) (creationTimestamp b) \<longrightarrow>
      shouldYieldTo b (tabId c) (creationTimestamp c) \<longrightarrow>
        shouldYieldTo a (tabId c) (creationTimestamp c))"
  unfolding shouldYieldTo_def by auto

theorem shouldYieldTo_strict_total_order_witness:
  "tabId (TabChief_new ''a'' 100 None) \<noteq> tabId (TabChief_new ''b'' 100 None)
   \<and> shouldYieldTo (TabChief_new ''b'' 100 None) ''a'' 100
   \<and> \<not> shouldYieldTo (TabChief_new ''a'' 100 None) ''b'' 100
   \<and> shouldYieldTo (TabChief_new ''c'' 100 None) ''b'' 100
   \<and> shouldYieldTo (TabChief_new ''c'' 100 None) ''a'' 100"
  using shouldYieldTo_strict_total_order
    [of "TabChief_new ''c'' 100 None" "''b''" 100
        "TabChief_new ''a'' 100 None" "TabChief_new ''b'' 100 None" "TabChief_new ''c'' 100 None"]
  by (simp add: TabChief_new_def shouldYieldTo_def)

subsection \<open>Exclusive tasks\<close>




subsection \<open>Misuse of start and stop\<close>

text \<open>
  C7. \<^verbatim>\<open>start()\<close> in a state other than \<open>IDLE\<close> or \<open>STOPPED\<close>, and \<^verbatim>\<open>stop()\<close> in \<open>IDLE\<close> or
  \<open>STOPPED\<close>, return the instance as it was: state, timers, registries, tracked chief and
  trace (so nothing was broadcast and nothing was called). From a started state, \<^verbatim>\<open>stop()\<close>
  ends in \<open>STOPPED\<close>, a second \<^verbatim>\<open>stop()\<close> changes nothing, and over both calls each
  active cleanup was called once.
\<close>

theorem start_stop_noop:
  "(state t \<noteq> IDLE \<and> state t \<noteq> STOPPED \<longrightarrow> start t = t)
   \<and> (state t = IDLE \<or> state t = STOPPED \<longrightarrow> stop t = t)
   \<and> (state t \<noteq> IDLE \<and> state t \<noteq> STOPPED \<longrightarrow>
        state (stop t) = STOPPED \<and> stop (stop t) = stop t \<and>
        ranCleanups (trace (stop (stop t))) =
          ranCleanups (trace t) @ map cleanup_ref (activeCleanups t))"
proof -
  have a: "start t = t" if "state t \<noteq> IDLE \<and> state t \<noteq> STOPPED"
    using that by (simp add: start_def)
  have b: "stop u = u" if "state u = IDLE \<or> state u = STOPPED" for u
    using that by (auto simp add: stop_def)
  have c: "state (stop t) = STOPPED" if "state t \<noteq> IDLE \<and> state t \<noteq> STOPPED"
    using that by (simp add: stop_eq)
  have d: "ranCleanups (trace (stop t)) = ranCleanups (trace t) @ map cleanup_ref (activeCleanups t)"
    if "state t \<noteq> IDLE \<and> state t \<noteq> STOPPED"
    using that by (simp add: stop_eq proj_Cons)
  show ?thesis using a b [of t] b [of "stop t"] c d by simp
qed

theorem start_stop_noop_witness:
  "state exampleChief \<noteq> IDLE \<and> state exampleChief \<noteq> STOPPED
   \<and> start exampleChief = exampleChief
   \<and> (state exampleNew = IDLE \<or> state exampleNew = STOPPED)
   \<and> stop exampleNew = exampleNew
   \<and> state (stop exampleChief) = STOPPED
   \<and> stop (stop exampleChief) = stop exampleChief
   \<and> ranCleanups (trace (stop (stop exampleChief))) = [7]"
proof -
  have f: "state exampleChief = CHIEF" "state exampleNew = IDLE"
    "ranCleanups (trace exampleChief) = []" "activeCleanups exampleChief = [exampleCleanup]"
    by (simp_all add: exampleChief_eq exampleNew_eq proj_Cons)
  have a: "start exampleChief = exampleChief \<and> state (stop exampleChief) = STOPPED
      \<and> stop (stop exampleChief) = stop exampleChief
      \<and> ranCleanups (trace (stop (stop exampleChief))) = [] @ map cleanup_ref [exampleCleanup]"
    using start_stop_noop [of exampleChief] unfolding f by force
  have b: "stop exampleNew = exampleNew"
    using start_stop_noop [of exampleNew] unfolding f by simp
  show ?thesis
    unfolding f using a b by (auto simp add: exampleCleanup_def)
qed

subsection \<open>Observers of state transitions\<close>

text \<open>
  C8. \<^verbatim>\<open>setState\<close> is the only assignment to the state. It calls the state-change
  subscribers with (new, old) exactly when the new state differs from the old one, the
  become-chief subscribers exactly when it lands in \<open>CHIEF\<close> from another state, and the
  become-follower subscribers exactly when it lands in \<open>FOLLOWER\<close> from \<open>CHIEF\<close> (so not
  from \<open>ELECTING\<close>); a transition to the current state changes nothing at all. The same
  holds of every step of an instance, whatever the input: the subscribers called are
  determined by the state before and the state after in exactly this way.
\<close>

theorem setState_callbacks:
  "state (setState newState t) = newState
   \<and> stateChangeCalls (trace (setState newState t)) =
       stateChangeCalls (trace t) @
       (if newState \<noteq> state t
        then map (\<lambda>c. (scb_ref c, newState, state t)) (stateChangeCallbacks t) else [])
   \<and> becomeChiefCalls (trace (setState newState t)) =
       becomeChiefCalls (trace t) @
       (if newState = CHIEF \<and> state t \<noteq> CHIEF then map lcb_ref (becomeChiefCallbacks t) else [])
   \<and> becomeFollowerCalls (trace (setState newState t)) =
       becomeFollowerCalls (trace t) @
       (if newState = FOLLOWER \<and> state t = CHIEF
        then map lcb_ref (becomeFollowerCallbacks t) else [])
   \<and> (newState = state t \<longrightarrow> setState newState t = t)
   \<and> stateChangeCalls (trace (step i t)) =
       stateChangeCalls (trace t) @
       (if state (step i t) \<noteq> state t
        then map (\<lambda>c. (scb_ref c, state (step i t), state t)) (stateChangeCallbacks t) else [])
   \<and> becomeChiefCalls (trace (step i t)) =
       becomeChiefCalls (trace t) @
       (if state (step i t) = CHIEF \<and> state t \<noteq> CHIEF
        then map lcb_ref (becomeChiefCallbacks t) else [])
   \<and> becomeFollowerCalls (trace (step i t)) =
       becomeFollowerCalls (trace t) @
       (if state (step i t) = FOLLOWER \<and> state t = CHIEF
        then map lcb_ref (becomeFollowerCallbacks t) else [])"
proof -
  have "state (setState newState t) = newState
   \<and> stateChangeCalls (trace (setState newState t)) =
       stateChangeCalls (trace t) @
       (if newState \<noteq> state t
        then map (\<lambda>c. (scb_ref c, newState, state t)) (stateChangeCallbacks t) else [])
   \<and> becomeChiefCalls (trace (setState newState t)) =
       becomeChiefCalls (trace t) @
       (if newState = CHIEF \<and> state t \<noteq> CHIEF then map lcb_ref (becomeChiefCallbacks t) else [])
   \<and> becomeFollowerCalls (trace (setState newState t)) =
       becomeFollowerCalls (trace t) @
       (if newState = FOLLOWER \<and> state t = CHIEF
        then map lcb_ref (becomeFollowerCallbacks t) else [])
   \<and> (newState = state t \<longrightarrow> setState newState t = t)"
  proof -
    have e: "setState newState t = t" if "newState = state t"
      using that by (simp add: setState_def)
    have "state (setState newState t) = newState"
      "stateChangeCalls (trace (setState newState t)) =
       stateChangeCalls (trace t) @
       (if newState \<noteq> state t
        then map (\<lambda>c. (scb_ref c, newState, state t)) (stateChangeCallbacks t) else [])"
      "becomeChiefCalls (trace (setState newState t)) =
       becomeChiefCalls (trace t) @
       (if newState = CHIEF \<and> state t \<noteq> CHIEF then map lcb_ref (becomeChiefCallbacks t) else [])"
      "becomeFollowerCalls (trace (setState newState t)) =
       becomeFollowerCalls (trace t) @
       (if newState = FOLLOWER \<and> state t = CHIEF
        then map lcb_ref (becomeFollowerCallbacks t) else [])"
      by (simp_all add: setState_eq proj_setStateEvents_observers)
    then show ?thesis using e by blast
  qed
  then show ?thesis
    using observed_step [of t i] unfolding observed_def by blast
qed

theorem setState_callbacks_witness:
  "stateChangeCalls (trace (setState CHIEF exampleElecting)) =
     [(3, ELECTING, IDLE), (3, CHIEF, ELECTING)]
   \<and> becomeChiefCalls (trace (setState CHIEF exampleElecting)) = [4]
   \<and> becomeFollowerCalls (trace (setState CHIEF exampleElecting)) = []
   \<and> becomeFollowerCalls (trace (setState FOLLOWER exampleChief)) = [5]
   \<and> becomeFollowerCalls (trace (setState FOLLOWER exampleElecting)) = []
   \<and> ELECTING = state exampleElecting
   \<and> setState ELECTING exampleElecting = exampleElecting
   \<and> state (step ElectionTimerFires exampleElecting) = CHIEF
   \<and> stateChangeCalls (trace (step ElectionTimerFires exampleElecting)) =
     [(3, ELECTING, IDLE), (3, CHIEF, ELECTING)]
   \<and> becomeChiefCalls (trace (step ElectionTimerFires exampleElecting)) = [4]"
proof -
  have s: "state (electionTimerFires exampleElecting) = CHIEF"
    by (simp add: exampleElecting_eq electionTimerFires_eq declareVictory_eq)
  have f: "state exampleElecting = ELECTING" "state exampleChief = CHIEF"
    "stateChangeCalls (trace exampleElecting) = [(3, ELECTING, IDLE)]"
    "becomeChiefCalls (trace exampleElecting) = []"
    "becomeFollowerCalls (trace exampleElecting) = []"
    "becomeFollowerCalls (trace exampleChief) = []"
    "stateChangeCallbacks exampleElecting = [exampleStateChangeCallback]"
    "becomeChiefCallbacks exampleElecting = [exampleBecomeChiefCallback]"
    "becomeFollowerCallbacks exampleElecting = [exampleBecomeFollowerCallback]"
    "becomeFollowerCallbacks exampleChief = [exampleBecomeFollowerCallback]"
    by (simp_all add: exampleElecting_eq exampleChief_eq proj_Cons)
  show ?thesis
    using setState_callbacks [of CHIEF exampleElecting ElectionTimerFires]
      setState_callbacks [of FOLLOWER exampleChief ElectionTimerFires]
      setState_callbacks [of FOLLOWER exampleElecting ElectionTimerFires]
      setState_callbacks [of ELECTING exampleElecting ElectionTimerFires]
    by (simp add: s f exampleStateChangeCallback_def
          exampleBecomeChiefCallback_def exampleBecomeFollowerCallback_def)
qed

subsection \<open>Fault isolation\<close>



subsection \<open>Posting data\<close>




subsection \<open>Two chiefs\<close>

text \<open>
  C1. Uniqueness of the chief requires that of two simultaneous chiefs one steps down.
  Here neither does. The two peers of \<open>twoPeers\<close> have both declared victory before any
  message arrived. Whatever messages are then delivered, in whatever order and however
  many: both peers remain \<open>CHIEF\<close>, two peers report \<open>isChief\<close>, and a \<open>VICTORY\<close> is again
  in flight, so the exchange does not end either. The cause is the comparison in
  \<^verbatim>\<open>handleHeartbeat\<close> and \<^verbatim>\<open>handleVictory\<close>: \<open>shouldYieldTo\<close> is given the receiver's clock
  reading in place of the sender's creation timestamp, and a clock reading later than the
  receiver's own creation timestamp never makes it yield.
\<close>

theorem split_brain_persists:
  "map state (peers (netRun (bothDeclareVictory @ map Deliver ns) twoPeers)) = [CHIEF, CHIEF]
   \<and> length (filter isChief (peers (netRun (bothDeclareVictory @ map Deliver ns) twoPeers))) = 2
   \<and> VICTORY \<in> (msg_type \<circ> snd) `
        set (inflight (netRun (bothDeclareVictory @ map Deliver ns) twoPeers))"
  using storm_deliveries [OF setup_storm, of ns]
  unfolding netRun_append storm_def chiefUnchallenged_def isChief_def by auto

subsection \<open>Conflict resolution while chief\<close>

text \<open>
  C2, as stated, includes that a chief re-asserts by rebroadcasting \<open>VICTORY\<close> in every case
  in which it does not yield. On a \<open>HEARTBEAT\<close> it does not: the example chief (created at
  100, clock at 3500) receives a heartbeat from \<^verbatim>\<open>b\<close>, does not yield, and is returned
  unchanged, so nothing was broadcast.
\<close>

theorem chief_heartbeat_counterexample:
  "state exampleChief = CHIEF
   \<and> senderId (BaseMessage HEARTBEAT ''b'' 3400) \<noteq> tabId exampleChief
   \<and> \<not> shouldYieldTo exampleChief ''b'' (clock exampleChief)
   \<and> handleMessage (BaseMessage HEARTBEAT ''b'' 3400) exampleChief = exampleChief
   \<and> sentMessages (trace (handleMessage (BaseMessage HEARTBEAT ''b'' 3400) exampleChief)) =
       sentMessages (trace exampleChief)"
  by (simp add: example_fields handleMessage_def handleHeartbeat_eq shouldYieldTo_def)

text \<open>
  C2, amended. A chief that receives a \<open>HEARTBEAT\<close> or \<open>VICTORY\<close> from another peer steps
  down to \<open>FOLLOWER\<close> (tracking the sender) exactly when the tie-break function, applied to
  the sender's id and the receiver's own clock reading at receipt, says it must yield; the
  timestamp carried by the message is not used. When it does not yield it stays \<open>CHIEF\<close>;
  it rebroadcasts \<open>VICTORY\<close> when the message was a \<open>VICTORY\<close>, and on a \<open>HEARTBEAT\<close> it
  sends nothing and is unchanged.
\<close>

theorem chief_conflict_resolution:
  "state t = CHIEF \<Longrightarrow> channel t \<noteq> None \<Longrightarrow> senderId m \<noteq> tabId t \<Longrightarrow>
   msg_type m = HEARTBEAT \<or> msg_type m = VICTORY \<Longrightarrow>
     (state (handleMessage m t) = FOLLOWER \<longleftrightarrow> shouldYieldTo t (senderId m) (clock t))
     \<and> (shouldYieldTo t (senderId m) (clock t) \<longrightarrow>
          currentChiefId (handleMessage m t) = Some (senderId m))
     \<and> (\<not> shouldYieldTo t (senderId m) (clock t) \<longrightarrow>
          handleMessage m t =
            t\<lparr>trace := trace t @
                 (if msg_type m = VICTORY
                  then [ChannelPostMessage (BaseMessage VICTORY (tabId t) (clock t))]
                  else [])\<rparr>)"
  by (auto simp add: handleMessage_def handleHeartbeat_eq handleVictory_def becomeFollower_eq
        broadcast_eq sendEvents_def)

theorem chief_conflict_resolution_witness:
  "state exampleChief = CHIEF \<and> channel exampleChief \<noteq> None
   \<and> senderId (BaseMessage VICTORY ''b'' 3400) \<noteq> tabId exampleChief
   \<and> \<not> shouldYieldTo exampleChief ''b'' (clock exampleChief)
   \<and> state (handleMessage (BaseMessage VICTORY ''b'' 3400) exampleChief) = CHIEF
   \<and> sentMessages (trace (handleMessage (BaseMessage VICTORY ''b'' 3400) exampleChief)) =
        sentMessages (trace exampleChief) @ [BaseMessage VICTORY ''a'' 3500]
   \<and> state (exampleChief\<lparr>clock := 100\<rparr>) = CHIEF
   \<and> shouldYieldTo (exampleChief\<lparr>clock := 100\<rparr>) ''0'' (clock (exampleChief\<lparr>clock := 100\<rparr>))
   \<and> state (handleMessage (BaseMessage HEARTBEAT ''0'' 90) (exampleChief\<lparr>clock := 100\<rparr>))
        = FOLLOWER
   \<and> currentChiefId (handleMessage (BaseMessage HEARTBEAT ''0'' 90) (exampleChief\<lparr>clock := 100\<rparr>))
        = Some ''0''"
proof -
  have n: "\<not> shouldYieldTo exampleChief ''b'' (clock exampleChief)"
    by (simp add: example_fields shouldYieldTo_def)
  have y: "shouldYieldTo (exampleChief\<lparr>clock := 100\<rparr>) ''0'' (clock (exampleChief\<lparr>clock := 100\<rparr>))"
    by (simp add: example_fields shouldYieldTo_def)
  have a: "handleMessage (BaseMessage VICTORY ''b'' 3400) exampleChief =
      exampleChief\<lparr>trace := trace exampleChief @ [ChannelPostMessage (BaseMessage VICTORY ''a'' 3500)]\<rparr>"
    using chief_conflict_resolution [of exampleChief "BaseMessage VICTORY ''b'' 3400"] n
    by (simp add: example_fields)
  have b: "state (handleMessage (BaseMessage HEARTBEAT ''0'' 90) (exampleChief\<lparr>clock := 100\<rparr>))
        = FOLLOWER
     \<and> currentChiefId (handleMessage (BaseMessage HEARTBEAT ''0'' 90) (exampleChief\<lparr>clock := 100\<rparr>))
        = Some ''0''"
    using chief_conflict_resolution [of "exampleChief\<lparr>clock := 100\<rparr>" "BaseMessage HEARTBEAT ''0'' 90"] y
    by (simp add: example_fields)
  show ?thesis
    using n y b by (simp add: a example_fields proj_Cons)
qed

subsection \<open>Accepting a chief\<close>

text \<open>
  C3, as stated, includes that an electing instance becomes a follower on \<open>VICTORY\<close> only
  when it must yield to the sender, and that a \<open>HEARTBEAT\<close> or \<open>VICTORY\<close> from a peer it
  out-ranks leaves state and tracked chief unchanged. The example electing instance
  (created at 100) out-ranks \<^verbatim>\<open>b\<close> by the timestamp 200 and by its own clock alike, yet on
  \<open>VICTORY\<close> from \<^verbatim>\<open>b\<close> it becomes \<open>FOLLOWER\<close> and tracks \<^verbatim>\<open>b\<close>.
\<close>

theorem electing_accepts_victory_counterexample:
  "state exampleElecting = ELECTING
   \<and> senderId (BaseMessage VICTORY ''b'' 200) \<noteq> tabId exampleElecting
   \<and> \<not> shouldYieldTo exampleElecting ''b'' 200
   \<and> \<not> shouldYieldTo exampleElecting ''b'' (clock exampleElecting)
   \<and> state (handleMessage (BaseMessage VICTORY ''b'' 200) exampleElecting) = FOLLOWER
   \<and> currentChiefId exampleElecting = None
   \<and> currentChiefId (handleMessage (BaseMessage VICTORY ''b'' 200) exampleElecting) = Some ''b''"
  by (simp add: example_fields handleMessage_def handleVictory_def becomeFollower_eq
        shouldYieldTo_def)

text \<open>
  C3, amended. An electing instance becomes \<open>FOLLOWER\<close> on \<open>ALIVE\<close> only from a peer it
  must yield to under the tie-break rule on the carried timestamp (arming the liveness
  timer of \<open>electionTimeout\<close>, tracked chief unchanged), and an \<open>ALIVE\<close> from any other
  peer leaves it unchanged. An electing or following instance accepts every \<open>HEARTBEAT\<close>
  and every \<open>VICTORY\<close> from another peer, whatever the ranks: it becomes \<open>FOLLOWER\<close>,
  adopts the sender as chief and re-arms the liveness timer of \<open>electionTimeout\<close>.
\<close>

theorem follower_acceptance:
  "senderId m \<noteq> tabId t \<Longrightarrow>
     (state t = ELECTING \<and> msg_type m = ALIVE \<longrightarrow>
        (if shouldYieldTo t (senderId m) (timestamp m)
         then state (handleMessage m t) = FOLLOWER
              \<and> electionTimer (handleMessage m t) =
                  Some (Pending ChiefSeemsDead (electionTimeout t))
              \<and> currentChiefId (handleMessage m t) = currentChiefId t
         else handleMessage m t = t))
     \<and> ((state t = ELECTING \<or> state t = FOLLOWER)
         \<and> (msg_type m = HEARTBEAT \<or> msg_type m = VICTORY) \<longrightarrow>
        state (handleMessage m t) = FOLLOWER
        \<and> currentChiefId (handleMessage m t) = Some (senderId m)
        \<and> electionTimer (handleMessage m t) = Some (Pending ChiefSeemsDead (electionTimeout t)))"
  by (auto simp add: handleMessage_def handleHeartbeat_eq handleVictory_def becomeFollower_eq
        handleAliveResponse_def resetElectionTimeout_eq setState_eq clearElectionTimer_eq)

theorem follower_acceptance_witness:
  "senderId (BaseMessage ALIVE ''0'' 50) \<noteq> tabId exampleElecting
   \<and> state exampleElecting = ELECTING
   \<and> shouldYieldTo exampleElecting ''0'' 50
   \<and> state (handleMessage (BaseMessage ALIVE ''0'' 50) exampleElecting) = FOLLOWER
   \<and> electionTimer (handleMessage (BaseMessage ALIVE ''0'' 50) exampleElecting) =
        Some (Pending ChiefSeemsDead 3000)
   \<and> \<not> shouldYieldTo exampleElecting ''b'' 200
   \<and> handleMessage (BaseMessage ALIVE ''b'' 200) exampleElecting = exampleElecting
   \<and> state exampleFollower = FOLLOWER
   \<and> state (handleMessage (BaseMessage HEARTBEAT ''c'' 900) exampleFollower) = FOLLOWER
   \<and> currentChiefId (handleMessage (BaseMessage HEARTBEAT ''c'' 900) exampleFollower) = Some ''c''
   \<and> electionTimer (handleMessage (BaseMessage HEARTBEAT ''c'' 900) exampleFollower) =
        Some (Pending ChiefSeemsDead 3000)"
  using follower_acceptance [of "BaseMessage ALIVE ''0'' 50" exampleElecting]
    follower_acceptance [of "BaseMessage ALIVE ''b'' 200" exampleElecting]
    follower_acceptance [of "BaseMessage HEARTBEAT ''c'' 900" exampleFollower]
  by (simp add: example_fields shouldYieldTo_def)

subsection \<open>Answering an election request\<close>

text \<open>
  C6, as stated, includes that a receiver with higher priority whose state is not \<open>CHIEF\<close>
  starts its own election. Within the debounce window it does not: the example follower
  (debounce timer still armed) receives \<open>ELECTION\<close> from the younger peer \<^verbatim>\<open>c\<close>, answers
  \<open>ALIVE\<close>, and otherwise stays as it was: still \<open>FOLLOWER\<close>, no \<open>ELECTION\<close> broadcast, the
  liveness timer still stored.
\<close>

theorem election_request_debounced_counterexample:
  "state exampleFollower = FOLLOWER
   \<and> senderId (BaseMessage ELECTION ''c'' 300) \<noteq> tabId exampleFollower
   \<and> \<not> shouldYieldTo exampleFollower ''c'' 300
   \<and> handleMessage (BaseMessage ELECTION ''c'' 300) exampleFollower =
       exampleFollower\<lparr>trace := trace exampleFollower @
                        [ChannelPostMessage (BaseMessage ALIVE ''a'' 100)]\<rparr>
   \<and> state (handleMessage (BaseMessage ELECTION ''c'' 300) exampleFollower) = FOLLOWER
   \<and> electionTimer (handleMessage (BaseMessage ELECTION ''c'' 300) exampleFollower) =
       Some (Pending ChiefSeemsDead 3000)"
proof -
  have "handleMessage (BaseMessage ELECTION ''c'' 300) exampleFollower =
       exampleFollower\<lparr>trace := trace exampleFollower @
                        [ChannelPostMessage (BaseMessage ALIVE ''a'' 100)]\<rparr>"
    by (simp add: example_fields handleMessage_def handleElectionRequest_def Let_def
        shouldYieldTo_def broadcast_eq sendEvents_def startElection_eq)
  then show ?thesis
    by (simp add: example_fields shouldYieldTo_def)
qed

text \<open>
  C6, amended. On an \<open>ELECTION\<close> message from another peer, a receiver that must yield to
  the sender (by the sender's id and carried timestamp) sends nothing and is unchanged.
  A receiver that need not yield broadcasts \<open>ALIVE\<close> carrying its own creation timestamp;
  if its state is \<open>CHIEF\<close>, or the election debounce window is armed, that is all it does;
  otherwise it also starts its own election: state \<open>ELECTING\<close>, \<open>ELECTION\<close> broadcast with
  its creation timestamp, election timer of \<open>electionTimeout\<close> armed, debounce armed.
\<close>

theorem election_request_response:
  "channel t \<noteq> None \<Longrightarrow> senderId m \<noteq> tabId t \<Longrightarrow> msg_type m = ELECTION \<Longrightarrow>
     (shouldYieldTo t (senderId m) (timestamp m) \<longrightarrow> handleMessage m t = t)
     \<and> (\<not> shouldYieldTo t (senderId m) (timestamp m) \<longrightarrow>
          (state t = CHIEF \<or> electionDebounceTimer t \<noteq> None \<longrightarrow>
             handleMessage m t =
               t\<lparr>trace := trace t @
                    [ChannelPostMessage (BaseMessage ALIVE (tabId t) (creationTimestamp t))]\<rparr>)
          \<and> (state t \<noteq> CHIEF \<and> electionDebounceTimer t = None \<longrightarrow>
             state (handleMessage m t) = ELECTING
             \<and> electionTimer (handleMessage m t) =
                 Some (Pending CallDeclareVictory (electionTimeout t))
             \<and> electionDebounceTimer (handleMessage m t) = Some ELECTION_DEBOUNCE_TIME
             \<and> sentMessages (trace (handleMessage m t)) =
                 sentMessages (trace t) @
                 [BaseMessage ALIVE (tabId t) (creationTimestamp t),
                  BaseMessage ELECTION (tabId t) (creationTimestamp t)]))"
  by (auto simp add: handleMessage_def handleElectionRequest_def Let_def broadcast_eq
        sendEvents_def startElection_eq proj_Cons)

theorem election_request_response_witness:
  "channel exampleElecting \<noteq> None
   \<and> senderId (BaseMessage ELECTION ''0'' 50) \<noteq> tabId exampleElecting
   \<and> shouldYieldTo exampleElecting ''0'' 50
   \<and> handleMessage (BaseMessage ELECTION ''0'' 50) exampleElecting = exampleElecting
   \<and> \<not> shouldYieldTo exampleChief ''c'' 300 \<and> state exampleChief = CHIEF
   \<and> sentMessages (trace (handleMessage (BaseMessage ELECTION ''c'' 300) exampleChief)) =
        sentMessages (trace exampleChief) @ [BaseMessage ALIVE ''a'' 100]
   \<and> state (handleMessage (BaseMessage ELECTION ''c'' 300) exampleChief) = CHIEF
   \<and> \<not> shouldYieldTo (step ElectionDebounceTimerFires exampleFollower) ''c'' 300
   \<and> state (step ElectionDebounceTimerFires exampleFollower) \<noteq> CHIEF
   \<and> electionDebounceTimer (step ElectionDebounceTimerFires exampleFollower) = None
   \<and> state (handleMessage (BaseMessage ELECTION ''c'' 300)
               (step ElectionDebounceTimerFires exampleFollower)) = ELECTING
   \<and> sentMessages (trace (handleMessage (BaseMessage ELECTION ''c'' 300)
               (step ElectionDebounceTimerFires exampleFollower))) =
        [BaseMessage ELECTION ''a'' 100, BaseMessage ALIVE ''a'' 100,
         BaseMessage ELECTION ''a'' 100]"
proof -
  have y: "shouldYieldTo exampleElecting ''0'' 50" "\<not> shouldYieldTo exampleChief ''c'' 300"
    by (simp_all add: example_fields shouldYieldTo_def)
  define t where "t = step ElectionDebounceTimerFires exampleFollower"
  have t: "t = exampleFollower\<lparr>electionDebounceTimer := None\<rparr>"
    by (simp add: t_def electionDebounceTimerFires_def example_fields)
  have n: "\<not> shouldYieldTo t ''c'' 300"
    by (simp add: t example_fields shouldYieldTo_def)
  have a: "handleMessage (BaseMessage ELECTION ''0'' 50) exampleElecting = exampleElecting"
    using election_request_response [of exampleElecting "BaseMessage ELECTION ''0'' 50"] y
    by (simp add: example_fields)
  have b: "handleMessage (BaseMessage ELECTION ''c'' 300) exampleChief =
      exampleChief\<lparr>trace := trace exampleChief @
        [ChannelPostMessage (BaseMessage ALIVE ''a'' 100)]\<rparr>"
    using election_request_response [of exampleChief "BaseMessage ELECTION ''c'' 300"] y
    by (simp add: example_fields)
  have c: "state (handleMessage (BaseMessage ELECTION ''c'' 300) t) = ELECTING \<and>
      sentMessages (trace (handleMessage (BaseMessage ELECTION ''c'' 300) t)) =
        [BaseMessage ELECTION ''a'' 100, BaseMessage ALIVE ''a'' 100,
         BaseMessage ELECTION ''a'' 100]"
    using election_request_response [of t "BaseMessage ELECTION ''c'' 300"] n
    by (simp add: t example_fields)
  show ?thesis
    unfolding t_def [symmetric]
    using y n c by (simp add: a b example_fields proj_Cons t)
qed


end
